theory Spec2Isabelle
  imports Main
begin

section \<open>JavaScript values and strings\<close>

text \<open>
  The render context is a tree of mappings, arrays and scalars; strings are lists of
  8-bit code units. A number is a double: \<open>Finite m e\<close> is \<open>m\<close> times two to the power
  \<open>e\<close>, beside \<open>NaN\<close> and the two infinities. An object is the list of its own
  properties; it inherits the members of \<open>Object.prototype\<close>, an array those of
  \<open>Array.prototype\<close> as well.
\<close>

datatype jsnum = Finite int int | NaN | PosInfinity | NegInfinity

datatype jsval =
    JUndefined
  | JNull
  | JBool bool
  | JNum jsnum
  | JStr string
  | JArr "jsval list"
  | JObj "(string \<times> jsval) list"

text \<open>
  What a path can reach: a value of the data, a built-in function (kept as the text that
  \<open>String\<close> gives for it), or one of the two prototype objects.
\<close>

datatype jsany =
    Data jsval
  | BuiltinFunction string
  | ObjectPrototype
  | ArrayPrototype

text \<open>
  The JavaScript engine is a parameter of the renderer. \<open>evalBody body\<close> is the value
  that \<open>Function(body)()\<close> returns, or \<open>None\<close> when compiling or running the body
  throws (the renderer only tests this value for truthiness, so a function or a host
  object is given as an empty object); \<open>numberText\<close> is \<open>String\<close> on numbers; \<open>objectMethods name\<close> and
  \<open>arrayMethods name\<close> are the text of the function-valued member of that name of
  \<open>Object.prototype\<close> and of \<open>Array.prototype\<close>, or \<open>None\<close> when there is none.
\<close>

record engine =
  evalBody :: "string \<Rightarrow> jsval option"
  numberText :: "jsnum \<Rightarrow> string"
  objectMethods :: "string \<Rightarrow> string option"
  arrayMethods :: "string \<Rightarrow> string option"

datatype error = TypeError

definition bindE :: "error + 'a \<Rightarrow> ('a \<Rightarrow> error + 'b) \<Rightarrow> error + 'b" where
  "bindE m f = (case m of Inl e \<Rightarrow> Inl e | Inr x \<Rightarrow> f x)"

lemma bindE_Inr [simp]: "bindE (Inr x) f = f x"
  by (simp add: bindE_def)

lemma bindE_Inl [simp]: "bindE (Inl e) f = Inl e"
  by (simp add: bindE_def)

fun mapE :: "('a \<Rightarrow> error + 'b) \<Rightarrow> 'a list \<Rightarrow> error + 'b list" where
  "mapE f [] = Inr []"
| "mapE f (x # xs) = bindE (f x) (\<lambda>y. bindE (mapE f xs) (\<lambda>ys. Inr (y # ys)))"

lemma mapE_cong [fundef_cong]:
  "xs = ys \<Longrightarrow> (\<And>x. x \<in> set ys \<Longrightarrow> f x = g x) \<Longrightarrow> mapE f xs = mapE g ys"
  by (induction ys arbitrary: xs) auto

subsection \<open>Character classes of the regular expressions\<close>

definition isWordChar :: "char \<Rightarrow> bool" where
  "isWordChar c = (c \<in> set ''abcdefghijklmnopqrstuvwxyzABCDEFGHIJKLMNOPQRSTUVWXYZ0123456789_'')"

definition isKeyChar :: "char \<Rightarrow> bool" where
  "isKeyChar c = (isWordChar c \<or> c = CHR ''.'')"

definition isLineTerminator :: "char \<Rightarrow> bool" where
  "isLineTerminator c = (c = CHR 0x0A \<or> c = CHR 0x0D)"

definition isSpace :: "char \<Rightarrow> bool" where
  "isSpace c = (c \<in> set [CHR 0x09, CHR 0x0A, CHR 0x0B, CHR 0x0C, CHR 0x0D, CHR 0x20, CHR 0xA0])"

subsection \<open>String primitives\<close>

fun startsWith :: "string \<Rightarrow> string \<Rightarrow> bool" where
  "startsWith [] s = True"
| "startsWith (p # ps) [] = False"
| "startsWith (p # ps) (c # cs) = (p = c \<and> startsWith ps cs)"

text \<open>The text before and after the first occurrence of \<open>m\<close>, if there is one.\<close>

fun splitFirst :: "string \<Rightarrow> string \<Rightarrow> (string \<times> string) option" where
  "splitFirst m [] = (if m = [] then Some ([], []) else None)"
| "splitFirst m (c # cs) =
     (if startsWith m (c # cs) then Some ([], drop (length m) (c # cs))
      else (case splitFirst m cs of None \<Rightarrow> None | Some (a, b) \<Rightarrow> Some (c # a, b)))"

definition includesStr :: "string \<Rightarrow> string \<Rightarrow> bool" where
  "includesStr s m = (splitFirst m s \<noteq> None)"

lemma splitFirst_shorter:
  "splitFirst m s = Some (a, b) \<Longrightarrow> m \<noteq> [] \<Longrightarrow> length b < length s"
proof (induction s arbitrary: a)
  case Nil
  then show ?case by simp
next
  case (Cons c cs)
  show ?case
  proof (cases "startsWith m (c # cs)")
    case True
    with Cons.prems show ?thesis by (cases m) auto
  next
    case False
    with Cons.prems obtain a' where "splitFirst m cs = Some (a', b)"
      by (auto split: option.splits)
    with Cons.IH Cons.prems(2) show ?thesis by fastforce
  qed
qed

function jsSplit :: "string \<Rightarrow> string \<Rightarrow> string list" where
  "jsSplit s sep =
     (if sep = [] then map (\<lambda>c. [c]) s
      else (case splitFirst sep s of
              None \<Rightarrow> [s]
            | Some (a, b) \<Rightarrow> a # jsSplit b sep))"
  by pat_completeness auto
termination
  by (relation "measure (\<lambda>(s, sep). length s)") (auto dest: splitFirst_shorter)

declare jsSplit.simps [simp del]

definition trim :: "string \<Rightarrow> string" where
  "trim s = rev (dropWhile isSpace (rev (dropWhile isSpace s)))"

text \<open>Reading element \<open>i\<close> of an array of strings: \<open>None\<close> is JavaScript's \<open>undefined\<close>.\<close>

definition at :: "'a list \<Rightarrow> nat \<Rightarrow> 'a option" where
  "at xs i = (if i < length xs then Some (xs ! i) else None)"

text \<open>Calling \<open>trim\<close> on the result of an index read: on \<open>undefined\<close> it throws.\<close>

definition trimOf :: "string option \<Rightarrow> error + string" where
  "trimOf x = (case x of None \<Rightarrow> Inl TypeError | Some s \<Rightarrow> Inr (trim s))"

subsection \<open>Global replacement with a callback\<close>

text \<open>
  \<open>s.replace(/re/g, f)\<close>: a matcher \<open>rx prev s\<close> tries the expression at the start of
  \<open>s\<close>, \<open>prev\<close> being the character before it, and returns the captured groups and the
  length of the match. Matches are taken left to right and do not overlap; after an
  empty match one character is copied. A callback that throws ends the replacement.
\<close>

function replaceAll ::
  "(char option \<Rightarrow> string \<Rightarrow> ('g \<times> nat) option) \<Rightarrow>
   (string \<Rightarrow> 'g \<Rightarrow> error + string) \<Rightarrow> char option \<Rightarrow> string \<Rightarrow> error + string" where
  "replaceAll rx f prev s =
     (case rx prev s of
        Some (gs, n) \<Rightarrow>
          bindE (f (take n s) gs) (\<lambda>r.
            if 0 < n \<and> n \<le> length s
            then bindE (replaceAll rx f (Some (s ! (n - 1))) (drop n s)) (\<lambda>t. Inr (r @ t))
            else (case s of
                    [] \<Rightarrow> Inr r
                  | c # cs \<Rightarrow> bindE (replaceAll rx f (Some c) cs) (\<lambda>t. Inr (r @ c # t))))
      | None \<Rightarrow>
          (case s of
             [] \<Rightarrow> Inr []
           | c # cs \<Rightarrow> bindE (replaceAll rx f (Some c) cs) (\<lambda>t. Inr (c # t))))"
  by pat_completeness auto
termination
  by (relation "measure (\<lambda>(rx, f, prev, s). length s)") auto

declare replaceAll.simps [simp del]

text \<open>The callback is only applied to matches found in suffixes of the text.\<close>

lemma replaceAll_cong [fundef_cong]:
  assumes "rx = rx'" "prev = prev'" "s = s'"
    and "\<And>p t g n. rx' p t = Some (g, n) \<Longrightarrow> length t \<le> length s' \<Longrightarrow> f (take n t) g = f' (take n t) g"
  shows "replaceAll rx f prev s = replaceAll rx' f' prev' s'"
proof -
  have "(\<forall>p t g n. rx p t = Some (g, n) \<longrightarrow> length t \<le> length s \<longrightarrow> f (take n t) g = f' (take n t) g)
        \<Longrightarrow> replaceAll rx f prev s = replaceAll rx f' prev s"
  proof (induction "length s" arbitrary: s prev rule: less_induct)
    case less
    have step: "replaceAll rx f q u = replaceAll rx f' q u" if "length u < length s" for q u
      using less.hyps[OF that] less.prems that by simp
    show ?case
    proof (cases "rx prev s")
      case None
      then show ?thesis
        by (cases s) (simp_all add: replaceAll.simps[of rx f prev] replaceAll.simps[of rx f' prev] step)
    next
      case (Some a)
      obtain g n where a: "a = (g, n)" by (cases a)
      have fg: "f (take n s) g = f' (take n s) g"
        using less.prems Some a by simp
      have tl: "replaceAll rx f (Some (s ! (n - 1))) (drop n s)
                = replaceAll rx f' (Some (s ! (n - 1))) (drop n s)"
        if "0 < n \<and> n \<le> length s"
      proof -
        from that have "length (drop n s) < length s" by auto
        from step[OF this] show ?thesis .
      qed
      have cs: "replaceAll rx f (Some c) cs = replaceAll rx f' (Some c) cs" if "s = c # cs" for c cs
        using step[of cs "Some c"] that by simp
      have "(if 0 < n \<and> n \<le> length s
             then bindE (replaceAll rx f (Some (s ! (n - 1))) (drop n s)) (\<lambda>t. Inr (r @ t))
             else (case s of [] \<Rightarrow> Inr r
                   | c # cs \<Rightarrow> bindE (replaceAll rx f (Some c) cs) (\<lambda>t. Inr (r @ c # t))))
          = (if 0 < n \<and> n \<le> length s
             then bindE (replaceAll rx f' (Some (s ! (n - 1))) (drop n s)) (\<lambda>t. Inr (r @ t))
             else (case s of [] \<Rightarrow> Inr r
                   | c # cs \<Rightarrow> bindE (replaceAll rx f' (Some c) cs) (\<lambda>t. Inr (r @ c # t))))" for r
        using tl cs by (auto split: list.splits)
      with Some a fg show ?thesis
        by (simp add: replaceAll.simps[of rx f prev s] replaceAll.simps[of rx f' prev s])
    qed
  qed
  with assms show ?thesis by blast
qed

subsection \<open>String forms of values\<close>

fun showNat :: "nat \<Rightarrow> string" where
  "showNat n =
     (if n < 10 then [''0123456789'' ! n]
      else showNat (n div 10) @ [''0123456789'' ! (n mod 10)])"

declare showNat.simps [simp del]

definition showInt :: "int \<Rightarrow> string" where
  "showInt i = (if i < 0 then CHR ''-'' # showNat (nat (- i)) else showNat (nat i))"

fun joinWith :: "string \<Rightarrow> string list \<Rightarrow> string" where
  "joinWith sep [] = []"
| "joinWith sep [x] = x"
| "joinWith sep (x # y # ys) = x @ sep @ joinWith sep (y # ys)"

text \<open>
  \<open>String(v)\<close>, the conversion applied to what a replacement callback returns. An array
  is its elements joined by commas, \<open>null\<close> and \<open>undefined\<close> elements being empty. An
  object is converted by its \<open>toString\<close>: the inherited one gives \<open>[object Object]\<close>;
  an own property of that name is no function in a tree of data, the inherited
  \<open>valueOf\<close> returns the object itself, and the conversion throws a TypeError.
\<close>

fun toStr :: "engine \<Rightarrow> jsval \<Rightarrow> error + string" where
  "toStr ev JUndefined = Inr ''undefined''"
| "toStr ev JNull = Inr ''null''"
| "toStr ev (JBool b) = Inr (if b then ''true'' else ''false'')"
| "toStr ev (JNum n) = Inr (numberText ev n)"
| "toStr ev (JStr s) = Inr s"
| "toStr ev (JArr xs) =
     bindE (mapE (\<lambda>x. if x = JUndefined \<or> x = JNull then Inr [] else toStr ev x) xs)
       (\<lambda>parts. Inr (joinWith '','' parts))"
| "toStr ev (JObj ps) =
     (if ''toString'' \<in> fst ` set ps then Inl TypeError else Inr ''[object Object]'')"

text \<open>\<open>Array.prototype\<close> is an empty array: its string form is empty.\<close>

fun toStrAny :: "engine \<Rightarrow> jsany \<Rightarrow> error + string" where
  "toStrAny ev (Data v) = toStr ev v"
| "toStrAny ev (BuiltinFunction t) = Inr t"
| "toStrAny ev ObjectPrototype = Inr ''[object Object]''"
| "toStrAny ev ArrayPrototype = Inr []"

definition hexDigit :: "nat \<Rightarrow> char" where
  "hexDigit n = ''0123456789abcdef'' ! n"

text \<open>\<open>JSON.stringify\<close> of a string: quoted, with the quote, the backslash and the control characters escaped.\<close>

definition jsonEscape :: "char \<Rightarrow> string" where
  "jsonEscape c =
     (if c = CHR 0x22 then [CHR 0x5C, CHR 0x22]
      else if c = CHR 0x5C then [CHR 0x5C, CHR 0x5C]
      else if c = CHR 0x08 then [CHR 0x5C, CHR ''b'']
      else if c = CHR 0x09 then [CHR 0x5C, CHR ''t'']
      else if c = CHR 0x0A then [CHR 0x5C, CHR ''n'']
      else if c = CHR 0x0C then [CHR 0x5C, CHR ''f'']
      else if c = CHR 0x0D then [CHR 0x5C, CHR ''r'']
      else if (of_char c :: nat) < 32
        then [CHR 0x5C, CHR ''u'', CHR ''0'', CHR ''0'',
              hexDigit ((of_char c :: nat) div 16), hexDigit ((of_char c :: nat) mod 16)]
      else [c])"

definition jsonStringify :: "string \<Rightarrow> string" where
  "jsonStringify s = [CHR 0x22] @ concat (map jsonEscape s) @ [CHR 0x22]"

fun numTruthy :: "jsnum \<Rightarrow> bool" where
  "numTruthy (Finite m e) = (m \<noteq> 0)"
| "numTruthy NaN = False"
| "numTruthy PosInfinity = True"
| "numTruthy NegInfinity = True"

fun truthy :: "jsval \<Rightarrow> bool" where
  "truthy JUndefined = False"
| "truthy JNull = False"
| "truthy (JBool b) = b"
| "truthy (JNum n) = numTruthy n"
| "truthy (JStr s) = (s \<noteq> [])"
| "truthy (JArr xs) = True"
| "truthy (JObj ps) = True"

section \<open>Path resolver\<close>

fun truthyAny :: "jsany \<Rightarrow> bool" where
  "truthyAny (Data v) = truthy v"
| "truthyAny a = True"

text \<open>\<open>typeof v === "object"\<close>: objects, arrays, the prototype objects and \<open>null\<close>.\<close>

fun typeofObject :: "jsany \<Rightarrow> bool" where
  "typeofObject (Data JNull) = True"
| "typeofObject (Data (JArr xs)) = True"
| "typeofObject (Data (JObj ps)) = True"
| "typeofObject ObjectPrototype = True"
| "typeofObject ArrayPrototype = True"
| "typeofObject a = False"

text \<open>The own properties of an array: its indices in canonical decimal form, and \<open>length\<close>.\<close>

definition arrayProps :: "jsval list \<Rightarrow> (string \<times> jsval) list" where
  "arrayProps xs =
     zip (map showNat [0..<length xs]) xs @ [(''length'', JNum (Finite (int (length xs)) 0))]"

text \<open>
  A member of \<open>Object.prototype\<close>, read on an object whose prototype is \<open>proto\<close>: the
  accessor \<open>__proto__\<close> gives that prototype, every other member is a function.
\<close>

definition objectMember :: "engine \<Rightarrow> jsany \<Rightarrow> string \<Rightarrow> jsany option" where
  "objectMember ev proto key =
     (if key = ''__proto__'' then Some proto
      else map_option BuiltinFunction (objectMethods ev key))"

definition arrayMember :: "engine \<Rightarrow> string \<Rightarrow> jsany option" where
  "arrayMember ev key = map_option BuiltinFunction (arrayMethods ev key)"

text \<open>
  \<open>key in acc\<close> and \<open>acc[key]\<close> for an \<open>acc\<close> of type object: \<open>None\<close> when the key is
  neither an own property nor found along the prototype chain. The prototype of
  \<open>Object.prototype\<close> is \<open>null\<close>, that of \<open>Array.prototype\<close> is \<open>Object.prototype\<close>.
\<close>

fun member :: "engine \<Rightarrow> jsany \<Rightarrow> string \<Rightarrow> jsany option" where
  "member ev (Data (JObj ps)) key =
     (case map_of ps key of
        Some v \<Rightarrow> Some (Data v)
      | None \<Rightarrow> objectMember ev ObjectPrototype key)"
| "member ev (Data (JArr xs)) key =
     (case map_of (arrayProps xs) key of
        Some v \<Rightarrow> Some (Data v)
      | None \<Rightarrow>
          (case arrayMember ev key of
             Some f \<Rightarrow> Some f
           | None \<Rightarrow> objectMember ev ArrayPrototype key))"
| "member ev ObjectPrototype key = objectMember ev (Data JNull) key"
| "member ev ArrayPrototype key =
     (if key = ''length'' then Some (Data (JNum (Finite 0 0)))
      else (case arrayMember ev key of
              Some f \<Rightarrow> Some f
            | None \<Rightarrow> objectMember ev ObjectPrototype key))"
| "member ev a key = None"

definition pathStep :: "engine \<Rightarrow> jsany \<Rightarrow> string \<Rightarrow> jsany" where
  "pathStep ev acc key =
     (if truthyAny acc \<and> typeofObject acc \<and> member ev acc key \<noteq> None
      then (case member ev acc key of Some v \<Rightarrow> v | None \<Rightarrow> Data JUndefined)
      else Data JUndefined)"

definition getValueFromPath :: "engine \<Rightarrow> jsval \<Rightarrow> string \<Rightarrow> jsany" where
  "getValueFromPath ev obj path = foldl (pathStep ev) (Data obj) (jsSplit path ''.'')"

section \<open>Expression evaluator\<close>

text \<open>\<open>\<bsol>b\<close>: exactly one of the characters on the two sides is a word character.\<close>

definition wordBoundary :: "char option \<Rightarrow> string \<Rightarrow> bool" where
  "wordBoundary prev s =
     ((case prev of None \<Rightarrow> False | Some c \<Rightarrow> isWordChar c) \<noteq>
      (case s of [] \<Rightarrow> False | c # cs \<Rightarrow> isWordChar c))"

text \<open>
  The greedy \<open>[\<bsol>w.]+\<bsol>b\<close> at the start of \<open>s\<close>: the length of the longest non-empty
  run of word characters and dots that ends at a word boundary.
\<close>

fun tokenEnd :: "string \<Rightarrow> nat option" where
  "tokenEnd [] = None"
| "tokenEnd (c # cs) =
     (if isKeyChar c
      then (case tokenEnd cs of
              Some k \<Rightarrow> Some (Suc k)
            | None \<Rightarrow> if wordBoundary (Some c) cs then Some 1 else None)
      else None)"

definition rxToken :: "char option \<Rightarrow> string \<Rightarrow> (unit \<times> nat) option" where
  "rxToken prev s =
     (if wordBoundary prev s
      then (case tokenEnd s of Some k \<Rightarrow> Some ((), k) | None \<Rightarrow> None)
      else None)"

definition sanitize :: "engine \<Rightarrow> string \<Rightarrow> jsval \<Rightarrow> error + string" where
  "sanitize ev expr context =
     replaceAll rxToken
       (\<lambda>match gs.
          let val = getValueFromPath ev context match in
          if val \<noteq> Data JUndefined
          then (case val of Data (JStr s) \<Rightarrow> Inr (jsonStringify s) | v \<Rightarrow> toStrAny ev v)
          else Inr match)
       None expr"

text \<open>
  The body handed to the \<open>Function\<close> constructor. Compiling and running it is inside
  the \<open>try\<close>; the substitution before it is not.
\<close>

definition functionBody :: "string \<Rightarrow> string" where
  "functionBody sanitized = [CHR 0x22] @ ''use strict'' @ [CHR 0x22] @ ''; return ('' @ sanitized @ '')''"

definition evaluateExpression :: "engine \<Rightarrow> string \<Rightarrow> jsval \<Rightarrow> error + jsval" where
  "evaluateExpression ev expr context =
     bindE (sanitize ev expr context) (\<lambda>sanitized.
       case evalBody ev (functionBody sanitized) of
         Some v \<Rightarrow> Inr v
       | None \<Rightarrow> Inr (JBool False))"

section \<open>The regular expressions of the renderer\<close>

lemma startsWith_eq: "startsWith m s \<Longrightarrow> s = m @ drop (length m) s"
  by (induction m s rule: startsWith.induct) auto

lemma splitFirst_eq: "splitFirst m s = Some (a, b) \<Longrightarrow> s = a @ m @ b"
proof (induction s arbitrary: a)
  case Nil
  then show ?case by (simp split: if_splits)
next
  case (Cons c cs)
  show ?case
  proof (cases "startsWith m (c # cs)")
    case True
    with Cons.prems startsWith_eq[OF True] show ?thesis by simp
  next
    case False
    with Cons.prems obtain a' where a': "splitFirst m cs = Some (a', b)" "a = c # a'"
      by (auto split: option.splits)
    with Cons.IH show ?thesis by simp
  qed
qed

text \<open>
  The lazy \<open>(.+?)\<bsol>}\<bsol>}([\<bsol>s\<bsol>S]*?)\<close> followed by the closing marker \<open>cls\<close>: the
  expression takes one character that is no line terminator, then the rest is tried
  (two closing braces, the shortest body, the closing marker); when that fails the
  expression takes one after character.
\<close>

fun lazyExpr :: "string \<Rightarrow> string \<Rightarrow> (string \<times> string \<times> string) option" where
  "lazyExpr cls [] = None"
| "lazyExpr cls (c # cs) =
     (if isLineTerminator c then None
      else (case (if startsWith ''}}'' cs then splitFirst cls (drop 2 cs) else None) of
              Some (inner, rest) \<Rightarrow> Some ([c], inner, rest)
            | None \<Rightarrow>
                (case lazyExpr cls cs of
                   Some (e, inner, rest) \<Rightarrow> Some (c # e, inner, rest)
                 | None \<Rightarrow> None)))"

text \<open>\<open>/\<bsol>{\<bsol>{#if (.+?)\<bsol>}\<bsol>}([\<bsol>s\<bsol>S]*?)\<bsol>{\<bsol>{\<bsol>/if\<bsol>}\<bsol>}/gm\<close>, and the same with \<open>subif\<close>.\<close>

definition rxCond :: "string \<Rightarrow> string \<Rightarrow> char option \<Rightarrow> string \<Rightarrow> ((string \<times> string) \<times> nat) option" where
  "rxCond opn cls prev s =
     (if startsWith opn s
      then (case lazyExpr cls (drop (length opn) s) of
              Some (e, inner, rest) \<Rightarrow> Some ((e, inner), length s - length rest)
            | None \<Rightarrow> None)
      else None)"

text \<open>\<open>/\<bsol>{\<bsol>{#([\<bsol>w.]+)\<bsol>}\<bsol>}([\<bsol>s\<bsol>S]*?)\<bsol>{\<bsol>{\<bsol>/\<bsol>1\<bsol>}\<bsol>}/gm\<close>: the closing marker repeats the key.\<close>

definition rxLoop :: "char option \<Rightarrow> string \<Rightarrow> ((string \<times> string) \<times> nat) option" where
  "rxLoop prev s =
     (if startsWith ''{{#'' s
      then (let key = takeWhile isKeyChar (drop 3 s);
                u = dropWhile isKeyChar (drop 3 s)
            in if key \<noteq> [] \<and> startsWith ''}}'' u
               then (case splitFirst (''{{/'' @ key @ ''}}'') (drop 2 u) of
                       Some (section, rest) \<Rightarrow> Some ((key, section), length s - length rest)
                     | None \<Rightarrow> None)
               else None)
      else None)"

text \<open>\<open>/\<bsol>{\<bsol>{([\<bsol>w.]+)\<bsol>}\<bsol>}/g\<close>\<close>

definition rxVar :: "char option \<Rightarrow> string \<Rightarrow> (string \<times> nat) option" where
  "rxVar prev s =
     (if startsWith ''{{'' s
      then (let key = takeWhile isKeyChar (drop 2 s);
                u = dropWhile isKeyChar (drop 2 s)
            in if key \<noteq> [] \<and> startsWith ''}}'' u
               then Some (key, length key + 4)
               else None)
      else None)"

text \<open>\<open>/nedara-(\<bsol>w+)/g\<close>\<close>

definition rxNedara :: "char option \<Rightarrow> string \<Rightarrow> (string \<times> nat) option" where
  "rxNedara prev s =
     (if startsWith ''nedara-'' s
      then (let w = takeWhile isWordChar (drop 7 s)
            in if w \<noteq> [] then Some (w, length w + 7) else None)
      else None)"

lemma lazyExpr_inner_shorter:
  "lazyExpr cls s = Some (e, inner, rest) \<Longrightarrow> length inner < length s"
proof (induction s arbitrary: e)
  case Nil
  then show ?case by simp
next
  case (Cons c cs)
  show ?case
  proof (cases "if startsWith ''}}'' cs then splitFirst cls (drop 2 cs) else None")
    case None
    with Cons.prems obtain e' where "lazyExpr cls cs = Some (e', inner, rest)"
      by (auto split: if_splits option.splits)
    from Cons.IH[OF this] show ?thesis by simp
  next
    case (Some a)
    with Cons.prems have "splitFirst cls (drop 2 cs) = Some (inner, rest)"
      by (auto split: if_splits)
    from splitFirst_eq[OF this] have "length inner \<le> length (drop 2 cs)"
      by (metis le_add1 length_append)
    then show ?thesis by simp
  qed
qed

lemma rxCond_inner_shorter:
  "rxCond opn cls p t = Some ((e, inner), n) \<Longrightarrow> length inner < length t"
  using lazyExpr_inner_shorter[of cls "drop (length opn) t"]
  by (auto simp: rxCond_def split: if_splits option.splits)

lemma size_in_arr: "x \<in> set xs \<Longrightarrow> size x < size (JArr xs)"
  by (induction xs) auto

lemma size_map_of: "map_of ps k = Some v \<Longrightarrow> size v < size (JObj ps)"
  by (induction ps) (auto split: if_splits)

text \<open>A path leads into the data or out of it, never to a larger value.\<close>

fun dataSize :: "jsany \<Rightarrow> nat" where
  "dataSize (Data v) = size v"
| "dataSize a = 0"

lemma objectMember_size: "dataSize proto = 0 \<Longrightarrow> objectMember ev proto key = Some v \<Longrightarrow> dataSize v = 0"
  by (auto simp: objectMember_def split: if_splits)

lemma arrayMember_size: "arrayMember ev key = Some v \<Longrightarrow> dataSize v = 0"
  by (auto simp: arrayMember_def)

lemma member_size: "member ev acc key = Some v \<Longrightarrow> dataSize v \<le> dataSize acc"
proof (induction ev acc key rule: member.induct)
  case (1 ev ps key)
  then show ?case
    using size_map_of[of ps key] objectMember_size[of ObjectPrototype ev key v]
    by (auto split: option.splits)
next
  case (2 ev xs key)
  show ?case
  proof (cases "map_of (arrayProps xs) key")
    case None
    with 2 show ?thesis
      using arrayMember_size[of ev key v] objectMember_size[of ArrayPrototype ev key v]
      by (auto split: option.splits)
  next
    case (Some w)
    then have "w \<in> set xs \<or> w = JNum (Finite (int (length xs)) 0)"
      by (auto simp: arrayProps_def map_add_Some_iff dest!: map_of_SomeD set_zip_rightD split: if_splits)
    with 2 Some show ?thesis using size_in_arr[of w xs] by auto
  qed
next
  case (3 ev key)
  then show ?case using objectMember_size[of "Data JNull" ev key v] by simp
next
  case (4 ev key)
  then show ?case
    using arrayMember_size[of ev key v] objectMember_size[of ObjectPrototype ev key v]
    by (auto split: if_splits option.splits)
qed simp_all

lemma pathStep_size: "dataSize (pathStep ev acc key) \<le> dataSize acc"
  using member_size[of ev acc key] by (auto simp: pathStep_def split: option.splits)

lemma foldl_pathStep_size: "dataSize (foldl (pathStep ev) acc ks) \<le> dataSize acc"
proof (induction ks arbitrary: acc)
  case Nil
  show ?case by simp
next
  case (Cons k ks)
  have "dataSize (foldl (pathStep ev) (pathStep ev acc k) ks) \<le> dataSize (pathStep ev acc k)"
    by (rule Cons.IH)
  also have "\<dots> \<le> dataSize acc" by (rule pathStep_size)
  finally show ?case by simp
qed

lemma getValueFromPath_size: "dataSize (getValueFromPath ev obj path) \<le> size obj"
  unfolding getValueFromPath_def using foldl_pathStep_size[of ev "Data obj"] by simp

section \<open>The template store\<close>

text \<open>
  \<open>templateDoc\<close> is \<open>None\<close> until templates are imported; afterwards it is the
  parsed document, here the elements that carry an identifier, in document order, each
  with its inner markup. \<open>getElementById\<close> finds the first element with the identifier.
\<close>

type_synonym templateDoc = "(string \<times> string) list option"

definition getTemplate :: "templateDoc \<Rightarrow> string \<Rightarrow> string option" where
  "getTemplate templateDoc ident =
     (case templateDoc of
        None \<Rightarrow> None
      | Some doc \<Rightarrow>
          (case map_of doc ident of
             None \<Rightarrow> None
           | Some innerHTML \<Rightarrow> Some (trim innerHTML)))"

section \<open>The renderer\<close>

function processConditionals :: "engine \<Rightarrow> string \<Rightarrow> jsval \<Rightarrow> error + string" where
  "processConditionals ev content context =
     replaceAll (rxCond ''{{#if '' ''{{/if}}'')
       (\<lambda>match (conditionExpr, inner).
          bindE (evaluateExpression ev (trim conditionExpr) context) (\<lambda>conditionValue.
          bindE (processConditionals ev inner context) (\<lambda>innerProcessed.
            if truthy conditionValue
            then trimOf (at (jsSplit innerProcessed ''{{else}}'') 0)
            else if includesStr inner ''{{else}}''
            then trimOf (at (jsSplit innerProcessed ''{{else}}'') 1)
            else Inr [])))
       None content"
  by pat_completeness auto
termination
  by (relation "measure (\<lambda>(ev, content, context). length content)")
     (auto dest: rxCond_inner_shorter)

declare processConditionals.simps [simp del]

definition processSubConditionals :: "engine \<Rightarrow> string \<Rightarrow> jsval \<Rightarrow> error + string" where
  "processSubConditionals ev content context =
     replaceAll (rxCond ''{{#subif '' ''{{/subif}}'')
       (\<lambda>match (conditionExpr, inner).
          bindE (evaluateExpression ev (trim conditionExpr) context) (\<lambda>conditionValue.
          bindE (processConditionals ev inner context) (\<lambda>innerProcessed.
            if truthy conditionValue
            then trimOf (at (jsSplit innerProcessed ''{{subelse}}'') 0)
            else if includesStr inner ''{{subelse}}''
            then trimOf (at (jsSplit innerProcessed ''{{subelse}}'') 1)
            else Inr [])))
       None content"

text \<open>The variable pass, run on every loop element and once after on the whole text.\<close>

definition substituteVars :: "engine \<Rightarrow> string \<Rightarrow> jsval \<Rightarrow> error + string" where
  "substituteVars ev content context =
     replaceAll rxVar
       (\<lambda>m variable.
          let val = getValueFromPath ev context variable in
          if val \<noteq> Data JUndefined then toStrAny ev val else Inr m)
       None content"

text \<open>
  Anything but an array leaves nothing. \<open>Array.prototype\<close> is an array too, an empty
  one, and leaves nothing either.
\<close>

function processNestedLoops :: "engine \<Rightarrow> string \<Rightarrow> jsval \<Rightarrow> error + string" where
  "processNestedLoops ev content context =
     replaceAll rxLoop
       (\<lambda>match (key, section).
          (case getValueFromPath ev context key of
             Data (JArr array) \<Rightarrow>
               bindE (mapE (\<lambda>item.
                  bindE (processConditionals ev section item) (\<lambda>processed1.
                  bindE (processSubConditionals ev processed1 item) (\<lambda>processed2.
                  bindE (substituteVars ev processed2 item) (\<lambda>processed3.
                  processNestedLoops ev processed3 item)))) array)
                 (\<lambda>outs. Inr (concat outs))
           | _ \<Rightarrow> Inr []))
       None content"
  by pat_completeness auto
termination
proof (relation "measure (\<lambda>(ev, content, context). size context)", goal_cases)
  case 1
  show ?case by simp
next
  case (2 ev content ctx p t g n key sect v array item)
  from 2 have "item \<in> set array" by simp
  then have "size item < size (JArr array)" by (rule size_in_arr)
  also have "\<dots> \<le> size ctx"
    using getValueFromPath_size[of ev ctx key] 2 by simp
  finally show ?case by simp
qed

declare processNestedLoops.simps [simp del]

text \<open>The conditional pass written out once after in \<open>renderTemplate\<close>, without recursion.\<close>

definition finalConditionals :: "engine \<Rightarrow> string \<Rightarrow> jsval \<Rightarrow> error + string" where
  "finalConditionals ev rendered data =
     replaceAll (rxCond ''{{#if '' ''{{/if}}'')
       (\<lambda>match (condition, section).
          bindE (evaluateExpression ev (trim condition) data) (\<lambda>conditionResult.
            if truthy conditionResult
            then trimOf (at (jsSplit section ''{{else}}'') 0)
            else if includesStr section ''{{else}}''
            then trimOf (at (jsSplit section ''{{else}}'') 1)
            else Inr []))
       None rendered"

text \<open>\<open>rendered.replace(/nedara-(\<bsol>w+)/g, "$1")\<close>\<close>

definition stripNedara :: "string \<Rightarrow> error + string" where
  "stripNedara rendered = replaceAll rxNedara (\<lambda>m w. Inr w) None rendered"

definition renderContent :: "engine \<Rightarrow> string \<Rightarrow> jsval \<Rightarrow> error + string" where
  "renderContent ev templateContent data =
     bindE (processNestedLoops ev templateContent data) (\<lambda>rendered1.
     bindE (processConditionals ev rendered1 data) (\<lambda>rendered2.
     bindE (processSubConditionals ev rendered2 data) (\<lambda>rendered3.
     bindE (finalConditionals ev rendered3 data) (\<lambda>rendered4.
     bindE (substituteVars ev rendered4 data) (\<lambda>rendered5.
     stripNedara rendered5)))))"

text \<open>
  \<open>renderTemplate(id, data = {})\<close>: a missing \<open>data\<close> is the empty object; a template
  that is not found, or whose trimmed markup is empty, renders as the empty string.
\<close>

definition renderTemplate :: "engine \<Rightarrow> templateDoc \<Rightarrow> string \<Rightarrow> jsval \<Rightarrow> error + string" where
  "renderTemplate ev templateDoc ident data0 =
     (let data = (if data0 = JUndefined then JObj [] else data0) in
      case getTemplate templateDoc ident of
        None \<Rightarrow> Inr []
      | Some templateContent \<Rightarrow>
          if templateContent = [] then Inr []
          else renderContent ev templateContent data)"

section \<open>An engine for the concrete runs\<close>

text \<open>
  The theorems below hold for every engine. The concrete runs use this one. Its
  \<open>evalBody\<close> returns the value of the function bodies whose expression is one of the
  literals \<open>true\<close>, \<open>false\<close> and \<open>null\<close> or one of the global constants \<open>undefined\<close>,
  \<open>NaN\<close> and \<open>Infinity\<close>, and fails on every other body; it is run only on these
  bodies and on bodies whose expression is a single identifier that nothing binds, where
  JavaScript throws a ReferenceError. Its \<open>numberText\<close> is
  exact on the integers of magnitude below \<open>2^53\<close>, on \<open>NaN\<close> and on the infinities; the
  concrete runs hold no other number. Its methods are the members that the standard
  gives the two prototypes, with the function text as V8 prints it.
\<close>

definition literalBody :: "string \<Rightarrow> jsval option" where
  "literalBody body =
     (if body = functionBody ''true'' then Some (JBool True)
      else if body = functionBody ''false'' then Some (JBool False)
      else if body = functionBody ''null'' then Some JNull
      else if body = functionBody ''undefined'' then Some JUndefined
      else if body = functionBody ''NaN'' then Some (JNum NaN)
      else if body = functionBody ''Infinity'' then Some (JNum PosInfinity)
      else None)"

fun integerText :: "jsnum \<Rightarrow> string" where
  "integerText (Finite m e) = (if e = 0 \<and> \<bar>m\<bar> < 2 ^ 53 then showInt m else ''?'')"
| "integerText NaN = ''NaN''"
| "integerText PosInfinity = ''Infinity''"
| "integerText NegInfinity = ''-Infinity''"

definition nativeText :: "string \<Rightarrow> string" where
  "nativeText name = ''function '' @ name @ ''() { [native code] }''"

definition objectPrototypeNames :: "string list" where
  "objectPrototypeNames =
     [''__defineGetter__'', ''__defineSetter__'', ''hasOwnProperty'', ''__lookupGetter__'',
      ''__lookupSetter__'', ''isPrototypeOf'', ''propertyIsEnumerable'', ''toString'',
      ''valueOf'', ''toLocaleString'']"

definition arrayPrototypeNames :: "string list" where
  "arrayPrototypeNames =
     [''at'', ''concat'', ''copyWithin'', ''fill'', ''find'', ''findIndex'', ''findLast'',
      ''findLastIndex'', ''lastIndexOf'', ''pop'', ''push'', ''reverse'', ''shift'',
      ''unshift'', ''slice'', ''sort'', ''splice'', ''includes'', ''indexOf'', ''join'',
      ''keys'', ''entries'', ''values'', ''forEach'', ''filter'', ''flat'', ''flatMap'',
      ''map'', ''every'', ''some'', ''reduce'', ''reduceRight'', ''toLocaleString'',
      ''toString'', ''toReversed'', ''toSorted'', ''toSpliced'', ''with'']"

definition objectMethodText :: "string \<Rightarrow> string option" where
  "objectMethodText key =
     (if key = ''constructor'' then Some (nativeText ''Object'')
      else if key \<in> set objectPrototypeNames then Some (nativeText key)
      else None)"

definition arrayMethodText :: "string \<Rightarrow> string option" where
  "arrayMethodText key =
     (if key = ''constructor'' then Some (nativeText ''Array'')
      else if key \<in> set arrayPrototypeNames then Some (nativeText key)
      else None)"

definition literalEngine :: engine where
  "literalEngine =
     \<lparr> evalBody = literalBody,
       numberText = integerText,
       objectMethods = objectMethodText,
       arrayMethods = arrayMethodText \<rparr>"

section \<open>Notions used in the statements\<close>

text \<open>The body of one loop element, and the replacement of one loop block.\<close>

definition expandItem :: "engine \<Rightarrow> string \<Rightarrow> jsval \<Rightarrow> error + string" where
  "expandItem ev sect item =
     bindE (processConditionals ev sect item) (\<lambda>processed1.
     bindE (processSubConditionals ev processed1 item) (\<lambda>processed2.
     bindE (substituteVars ev processed2 item) (\<lambda>processed3.
     processNestedLoops ev processed3 item)))"

definition loopBlock :: "engine \<Rightarrow> jsval \<Rightarrow> string \<Rightarrow> string \<times> string \<Rightarrow> error + string" where
  "loopBlock ev context match ks =
     (case ks of (key, sect) \<Rightarrow>
        (case getValueFromPath ev context key of
           Data (JArr array) \<Rightarrow> bindE (mapE (expandItem ev sect) array) (\<lambda>outs. Inr (concat outs))
         | _ \<Rightarrow> Inr []))"

text \<open>A text holds an escaped tag name where \<open>nedara-\<close> is followed by a word character.\<close>

fun hasNedara :: "string \<Rightarrow> bool" where
  "hasNedara [] = False"
| "hasNedara (c # cs) = (case rxNedara None (c # cs) of Some m \<Rightarrow> True | None \<Rightarrow> hasNedara cs)"

text \<open>A regular expression without \<open>\<bsol>b\<close> does not look at the character before the match.\<close>

definition prevFree :: "(char option \<Rightarrow> string \<Rightarrow> ('g \<times> nat) option) \<Rightarrow> bool" where
  "prevFree rx = (\<forall>p t. rx p t = rx None t)"

text \<open>A dotted path: a non-empty run of word characters and dots.\<close>

definition isPath :: "string \<Rightarrow> bool" where
  "isPath k = (k \<noteq> [] \<and> list_all isKeyChar k)"

text \<open>The pieces of a conditional body that \<open>split\<close> yields at index 0 and at index 1.\<close>

definition thenSection :: "string \<Rightarrow> string \<Rightarrow> string" where
  "thenSection sep body = (case splitFirst sep body of None \<Rightarrow> body | Some (a, b) \<Rightarrow> a)"

definition elseSection :: "string \<Rightarrow> string \<Rightarrow> string" where
  "elseSection sep body = (case splitFirst sep body of None \<Rightarrow> [] | Some (a, b) \<Rightarrow> thenSection sep b)"

text \<open>
  What the variable pass puts in the place of the marker \<open>{{p}}\<close>: the string form of
  the value when the context resolves the path, the marker itself when it does not.
\<close>

definition markerText :: "engine \<Rightarrow> jsval \<Rightarrow> string \<Rightarrow> error + string" where
  "markerText ev context p =
     (if getValueFromPath ev context p \<noteq> Data JUndefined
      then toStrAny ev (getValueFromPath ev context p)
      else Inr (''{{'' @ p @ ''}}''))"

definition textOf :: "error + string \<Rightarrow> string" where
  "textOf r = (case r of Inr tx \<Rightarrow> tx | Inl e \<Rightarrow> [])"

text \<open>
  Plain text holds neither \<open>{\<close> nor \<open>#\<close>: no pass finds a marker in it. A context
  gives a path a plain value when the conversion to a string succeeds with a plain text.
\<close>

definition plainText :: "string \<Rightarrow> bool" where
  "plainText s = (CHR ''{'' \<notin> set s \<and> CHR ''#'' \<notin> set s)"

definition plainValue :: "engine \<Rightarrow> jsval \<Rightarrow> string \<Rightarrow> bool" where
  "plainValue ev context p =
     (case markerText ev context p of Inr tx \<Rightarrow> plainText tx | Inl e \<Rightarrow> False)"

text \<open>
  The matches that a global replacement visits, each with its groups, in order; and the
  tokens of an expression, the matches of \<open>/\<bsol>b[\<bsol>w.]+\<bsol>b/g\<close>.
\<close>

function matchesOf ::
  "(char option \<Rightarrow> string \<Rightarrow> ('g \<times> nat) option) \<Rightarrow> char option \<Rightarrow> string \<Rightarrow> (string \<times> 'g) list" where
  "matchesOf rx prev s =
     (case rx prev s of
        Some (gs, n) \<Rightarrow>
          (take n s, gs) #
            (if 0 < n \<and> n \<le> length s
             then matchesOf rx (Some (s ! (n - 1))) (drop n s)
             else (case s of [] \<Rightarrow> [] | c # cs \<Rightarrow> matchesOf rx (Some c) cs))
      | None \<Rightarrow> (case s of [] \<Rightarrow> [] | c # cs \<Rightarrow> matchesOf rx (Some c) cs))"
  by pat_completeness auto
termination
  by (relation "measure (\<lambda>(rx, prev, s). length s)") auto

declare matchesOf.simps [simp del]

definition tokens :: "string \<Rightarrow> string list" where
  "tokens expr = map fst (matchesOf rxToken None expr)"

section \<open>Basic facts about the passes\<close>

lemma replaceAll_id:
  "(\<And>p i. rx p (drop i s) = None) \<Longrightarrow> replaceAll rx f prev s = Inr s"
proof (induction s arbitrary: prev)
  case Nil
  from Nil[of prev 0] show ?case by (simp add: replaceAll.simps)
next
  case (Cons c cs)
  have h: "rx prev (c # cs) = None" using Cons.prems[of prev 0] by simp
  have "\<And>p i. rx p (drop i cs) = None" using Cons.prems[of _ "Suc _"] by simp
  then have "replaceAll rx f (Some c) cs = Inr cs" by (rule Cons.IH)
  with h show ?case by (simp add: replaceAll.simps[of rx f prev "c # cs"] bindE_def)
qed

lemma startsWith_append: "startsWith m s \<Longrightarrow> startsWith m (s @ t)"
  by (induction m s rule: startsWith.induct) auto

lemma splitFirst_before_none:
  "splitFirst m s = Some (a, b) \<Longrightarrow> m \<noteq> [] \<Longrightarrow> splitFirst m a = None"
proof (induction s arbitrary: a)
  case Nil
  then show ?case by (simp split: if_splits)
next
  case (Cons c cs)
  show ?case
  proof (cases "startsWith m (c # cs)")
    case True
    with Cons.prems show ?thesis by simp
  next
    case False
    with Cons.prems obtain a' where a': "splitFirst m cs = Some (a', b)" "a = c # a'"
      by (auto split: option.splits)
    from splitFirst_eq[OF a'(1)] have cs: "c # cs = (c # a') @ m @ b" by simp
    have "\<not> startsWith m (c # a')"
      using False startsWith_append[of m "c # a'" "m @ b"] cs by auto
    with Cons.IH[OF a'(1) Cons.prems(2)] a' show ?thesis by simp
  qed
qed

lemma splitFirst_None_tl: "splitFirst m (c # cs) = None \<Longrightarrow> splitFirst m cs = None"
  by (auto split: if_splits option.splits)

lemma splitFirst_None_drop: "splitFirst m s = None \<Longrightarrow> m \<noteq> [] \<Longrightarrow> splitFirst m (drop i s) = None"
proof (induction s arbitrary: i)
  case Nil
  then show ?case by simp
next
  case (Cons c cs)
  show ?case
  proof (cases i)
    case 0
    with Cons.prems show ?thesis by simp
  next
    case (Suc j)
    with Cons.IH[OF splitFirst_None_tl[OF Cons.prems(1)] Cons.prems(2)] show ?thesis by simp
  qed
qed

lemma lazyExpr_inner_none:
  "lazyExpr cls s = Some (e, inner, rest) \<Longrightarrow> cls \<noteq> [] \<Longrightarrow> splitFirst cls inner = None"
proof (induction s arbitrary: e)
  case Nil
  then show ?case by simp
next
  case (Cons c cs)
  show ?case
  proof (cases "if startsWith ''}}'' cs then splitFirst cls (drop 2 cs) else None")
    case None
    with Cons.prems obtain e' where "lazyExpr cls cs = Some (e', inner, rest)"
      by (auto split: if_splits option.splits)
    from Cons.IH[OF this Cons.prems(2)] show ?thesis .
  next
    case (Some a)
    with Cons.prems have "splitFirst cls (drop 2 cs) = Some (inner, rest)"
      by (auto split: if_splits)
    then show ?thesis using Cons.prems(2) by (rule splitFirst_before_none)
  qed
qed

lemma lazyExpr_None: "splitFirst cls s = None \<Longrightarrow> cls \<noteq> [] \<Longrightarrow> lazyExpr cls s = None"
proof (induction s)
  case Nil
  then show ?case by simp
next
  case (Cons c cs)
  have cs: "splitFirst cls cs = None" using Cons.prems(1) by (rule splitFirst_None_tl)
  have "splitFirst cls (drop 2 cs) = None" using cs Cons.prems(2) by (rule splitFirst_None_drop)
  with Cons.IH[OF cs Cons.prems(2)] show ?case by simp
qed

lemma rxCond_None:
  "splitFirst cls s = None \<Longrightarrow> cls \<noteq> [] \<Longrightarrow> rxCond opn cls p (drop i s) = None"
  using lazyExpr_None[of cls "drop (length opn + i) s"] splitFirst_None_drop[of cls s "length opn + i"]
  by (simp add: rxCond_def add.commute)

lemma replaceAll_noclose:
  "splitFirst cls s = None \<Longrightarrow> cls \<noteq> [] \<Longrightarrow> replaceAll (rxCond opn cls) f prev s = Inr s"
  by (rule replaceAll_id) (rule rxCond_None)

lemma processConditionals_noclose:
  "splitFirst ''{{/if}}'' s = None \<Longrightarrow> processConditionals ev s context = Inr s"
  by (subst processConditionals.simps) (simp add: replaceAll_noclose)

lemma rxCond_inner_none:
  "rxCond opn cls p t = Some ((e, inner), n) \<Longrightarrow> cls \<noteq> [] \<Longrightarrow> splitFirst cls inner = None"
  using lazyExpr_inner_none[of cls "drop (length opn) t" e inner]
  by (auto simp: rxCond_def split: if_splits option.splits)

lemma processConditionals_final [code]:
  "processConditionals ev content context = finalConditionals ev content context"
proof -
  have "replaceAll (rxCond ''{{#if '' ''{{/if}}'')
       (\<lambda>match (conditionExpr, inner).
          bindE (evaluateExpression ev (trim conditionExpr) context) (\<lambda>conditionValue.
          bindE (processConditionals ev inner context) (\<lambda>innerProcessed.
            if truthy conditionValue
            then trimOf (at (jsSplit innerProcessed ''{{else}}'') 0)
            else if includesStr inner ''{{else}}''
            then trimOf (at (jsSplit innerProcessed ''{{else}}'') 1)
            else Inr [])))
       None content = finalConditionals ev content context"
    unfolding finalConditionals_def
  proof (rule replaceAll_cong[OF refl refl refl], goal_cases)
    case (1 p t g n)
    obtain e inner where g: "g = (e, inner)" by (cases g)
    from 1(1) g have "splitFirst ''{{/if}}'' inner = None"
      using rxCond_inner_none[of "''{{#if ''" "''{{/if}}''" p t e inner n] by simp
    then have "processConditionals ev inner context = Inr inner"
      by (rule processConditionals_noclose)
    then show ?case by (simp add: g)
  qed
  then show ?thesis by (subst processConditionals.simps)
qed

lemma processNestedLoops_replace [code]:
  "processNestedLoops ev content context = replaceAll rxLoop (loopBlock ev context) None content"
proof -
  have "loopBlock ev context = (\<lambda>match (key, sect).
          (case getValueFromPath ev context key of
             Data (JArr array) \<Rightarrow>
               bindE (mapE (\<lambda>item.
                  bindE (processConditionals ev sect item) (\<lambda>processed1.
                  bindE (processSubConditionals ev processed1 item) (\<lambda>processed2.
                  bindE (substituteVars ev processed2 item) (\<lambda>processed3.
                  processNestedLoops ev processed3 item)))) array)
                 (\<lambda>outs. Inr (concat outs))
           | _ \<Rightarrow> Inr []))"
    by (auto simp: fun_eq_iff loopBlock_def expandItem_def[abs_def] split: jsval.splits jsany.splits)
  then show ?thesis by (subst processNestedLoops.simps) simp
qed

lemma rxNedara_prev: "rxNedara p t = rxNedara None t"
  by (simp add: rxNedara_def)

lemma hasNedara_drop: "\<not> hasNedara s \<Longrightarrow> rxNedara p (drop i s) = None"
proof (induction s arbitrary: i)
  case Nil
  then show ?case by (simp add: rxNedara_def)
next
  case (Cons c cs)
  then show ?case by (cases i) (simp_all add: rxNedara_prev[of p] split: option.splits)
qed

lemma stripNedara_id: "\<not> hasNedara s \<Longrightarrow> stripNedara s = Inr s"
  unfolding stripNedara_def by (rule replaceAll_id) (rule hasNedara_drop)

lemma rxNedara_len:
  "rxNedara p s = Some (w, n) \<Longrightarrow> n = length w + 7 \<and> n \<le> length s"
proof -
  assume a: "rxNedara p s = Some (w, n)"
  then have st: "startsWith ''nedara-'' s" and w: "w = takeWhile isWordChar (drop 7 s)"
    and n: "n = length w + 7"
    by (auto simp: rxNedara_def Let_def split: if_splits)
  from startsWith_eq[OF st]
  have "length s = length ''nedara-'' + length (drop (length ''nedara-'') s)"
    by (metis length_append)
  then have "7 \<le> length s" by simp
  moreover have "length w \<le> length (drop 7 s)" unfolding w by (rule length_takeWhile_le)
  ultimately show ?thesis using n by simp
qed

lemma stripNedara_shorter:
  "replaceAll rxNedara (\<lambda>m w. Inr w) prev s = Inr u
   \<Longrightarrow> length u \<le> length s \<and> (hasNedara s \<longrightarrow> length u < length s)"
proof (induction "length s" arbitrary: s prev u rule: less_induct)
  case less
  show ?case
  proof (cases "rxNedara prev s")
    case None
    show ?thesis
    proof (cases s)
      case Nil
      with None less.prems show ?thesis by (simp add: replaceAll.simps)
    next
      case (Cons c cs)
      from None less.prems Cons obtain t where t: "replaceAll rxNedara (\<lambda>m w. Inr w) (Some c) cs = Inr t"
        and u: "u = c # t"
        by (cases "replaceAll rxNedara (\<lambda>m w. Inr w) (Some c) cs")
           (auto simp: replaceAll.simps[of rxNedara _ prev])
      have "length cs < length s" using Cons by simp
      from less.hyps[OF this t] have "length t \<le> length cs \<and> (hasNedara cs \<longrightarrow> length t < length cs)" .
      moreover have "hasNedara s = hasNedara cs"
        using None Cons rxNedara_prev[of prev s] by simp
      ultimately show ?thesis using u Cons by simp
    qed
  next
    case (Some a)
    obtain w n where a: "a = (w, n)" by (cases a)
    from rxNedara_len[of prev s w n] Some a have n: "n = length w + 7" "n \<le> length s" by simp_all
    then have pos: "0 < n \<and> n \<le> length s" by simp
    from Some a less.prems pos obtain t
      where t: "replaceAll rxNedara (\<lambda>m w. Inr w) (Some (s ! (n - 1))) (drop n s) = Inr t"
        and u: "u = w @ t"
      by (cases "replaceAll rxNedara (\<lambda>m w. Inr w) (Some (s ! (n - 1))) (drop n s)")
         (auto simp: replaceAll.simps[of rxNedara _ prev])
    have "length (drop n s) < length s" using pos by auto
    from less.hyps[OF this t] have "length t \<le> length s - n" by simp
    with n u show ?thesis by auto
  qed
qed

lemma stripNedara_changes: "hasNedara t \<Longrightarrow> stripNedara t \<noteq> Inr t"
  using stripNedara_shorter[of None t t] by (auto simp: stripNedara_def)

lemma trim_pad:
  assumes l: "\<forall>c\<in>set ws1. isSpace c" and r: "\<forall>c\<in>set ws2. isSpace c"
  shows "trim (ws1 @ s @ ws2) = trim s"
proof -
  have a: "dropWhile isSpace (ws1 @ s @ ws2) = dropWhile isSpace (s @ ws2)"
    using l by (simp add: dropWhile_append2)
  show ?thesis
  proof (cases "\<forall>c\<in>set s. isSpace c")
    case True
    then have e: "dropWhile isSpace (s @ ws2) = []" "dropWhile isSpace s = []"
      using r by (simp_all add: dropWhile_eq_Nil_conv)
    show ?thesis unfolding trim_def a e by (rule refl)
  next
    case False
    then obtain x where x: "x \<in> set s" "\<not> isSpace x" by blast
    then have "dropWhile isSpace (s @ ws2) = dropWhile isSpace s @ ws2"
      by (rule dropWhile_append1)
    moreover have "dropWhile isSpace (rev ws2 @ rev (dropWhile isSpace s))
        = dropWhile isSpace (rev (dropWhile isSpace s))"
      by (rule dropWhile_append2) (use r in auto)
    ultimately show ?thesis using a by (simp add: trim_def)
  qed
qed

lemma startsWith_prefix: "startsWith (a @ b) x \<Longrightarrow> startsWith a x"
  by (induction a x rule: startsWith.induct) auto

lemma startsWith_take: "startsWith m (take n x) \<Longrightarrow> startsWith m x"
  using startsWith_append[of m "take n x" "drop n x"] by simp

lemma splitFirst_None_iff:
  "m \<noteq> [] \<Longrightarrow> (splitFirst m s = None) = (\<forall>i. \<not> startsWith m (drop i s))"
proof (induction s)
  case Nil
  then show ?case by (cases m) auto
next
  case (Cons c cs)
  have "(\<forall>i. \<not> startsWith m (drop i (c # cs)))
      = (\<not> startsWith m (c # cs) \<and> (\<forall>i. \<not> startsWith m (drop i cs)))"
    (is "?L = ?R")
  proof
    assume ?L
    then have "\<not> startsWith m (drop 0 (c # cs))" "\<forall>i. \<not> startsWith m (drop (Suc i) (c # cs))"
      by blast+
    then show ?R by simp
  next
    assume R: ?R
    show ?L
    proof
      fix i show "\<not> startsWith m (drop i (c # cs))"
        using R by (cases i) auto
    qed
  qed
  with Cons show ?case by (auto split: option.splits)
qed

lemma trim_take_drop: "\<exists>j k. trim s = take k (drop j s)"
proof -
  define d where "d = dropWhile isSpace s"
  have "rev (dropWhile isSpace (rev d)) = rev (drop (length (takeWhile isSpace (rev d))) (rev d))"
    by (simp only: dropWhile_eq_drop)
  also have "\<dots> = take (length d - length (takeWhile isSpace (rev d))) d"
    by (simp add: rev_drop)
  finally have "trim s = take (length d - length (takeWhile isSpace (rev d)))
                  (drop (length (takeWhile isSpace s)) s)"
    by (simp add: trim_def d_def dropWhile_eq_drop[of isSpace s])
  then show ?thesis by blast
qed

lemma includes_trim:
  assumes "m \<noteq> []" "\<not> includesStr s m"
  shows "splitFirst m (drop i (trim s)) = None"
proof -
  obtain j k where t: "trim s = take k (drop j s)" using trim_take_drop by blast
  have n: "\<And>i. \<not> startsWith m (drop i s)"
    using assms splitFirst_None_iff[of m s] by (simp add: includesStr_def)
  have "\<not> startsWith m (drop i' (drop i (trim s)))" for i'
  proof
    assume "startsWith m (drop i' (drop i (trim s)))"
    then have "startsWith m (take (k - (i' + i)) (drop (i' + i + j) s))"
      by (simp add: t drop_take ac_simps)
    then have "startsWith m (drop (i' + i + j) s)" by (rule startsWith_take)
    with n show False by blast
  qed
  then show ?thesis using splitFirst_None_iff[OF assms(1)] by blast
qed

lemma rxLoop_plain: "\<not> startsWith ''{{'' x \<Longrightarrow> rxLoop p x = None"
  using startsWith_prefix[of "''{{''" "''#''" x] by (auto simp: rxLoop_def)

lemma rxIf_plain: "\<not> startsWith ''{{'' x \<Longrightarrow> rxCond ''{{#if '' cls p x = None"
  using startsWith_prefix[of "''{{''" "''#if ''" x] by (auto simp: rxCond_def)

lemma rxSubif_plain: "\<not> startsWith ''{{'' x \<Longrightarrow> rxCond ''{{#subif '' cls p x = None"
  using startsWith_prefix[of "''{{''" "''#subif ''" x] by (auto simp: rxCond_def)

lemma rxVar_plain: "\<not> startsWith ''{{'' x \<Longrightarrow> rxVar p x = None"
  by (simp add: rxVar_def)

lemma renderContent_plain:
  assumes "\<And>i. \<not> startsWith ''{{'' (drop i tc)"
  shows "renderContent ev tc data = stripNedara tc"
proof -
  have 1: "processNestedLoops ev tc data = Inr tc"
    unfolding processNestedLoops_replace by (rule replaceAll_id) (simp add: rxLoop_plain assms)
  have 2: "finalConditionals ev tc data = Inr tc"
    unfolding finalConditionals_def by (rule replaceAll_id) (simp add: rxIf_plain assms)
  have 3: "processSubConditionals ev tc data = Inr tc"
    unfolding processSubConditionals_def by (rule replaceAll_id) (simp add: rxSubif_plain assms)
  have 4: "substituteVars ev tc data = Inr tc"
    unfolding substituteVars_def by (rule replaceAll_id) (simp add: rxVar_plain assms)
  show ?thesis by (simp add: renderContent_def 1 2 3 4 processConditionals_final)
qed

lemma stripNedara_Nil: "stripNedara [] = Inr []"
  by (simp add: stripNedara_id)

lemma replaceAll_prev:
  assumes "prevFree rx"
  shows "replaceAll rx f p s = replaceAll rx f None s"
proof -
  have "rx p s = rx None s" using assms by (simp add: prevFree_def)
  then show ?thesis
    by (simp add: replaceAll.simps[of rx f p s] replaceAll.simps[of rx f None s])
qed

lemma replaceAll_hit:
  "rx prev s = Some (g, n) \<Longrightarrow> 0 < n \<Longrightarrow> n \<le> length s \<Longrightarrow>
   replaceAll rx f prev s =
     bindE (f (take n s) g) (\<lambda>r.
     bindE (replaceAll rx f (Some (s ! (n - 1))) (drop n s)) (\<lambda>t. Inr (r @ t)))"
  by (simp add: replaceAll.simps[of rx f prev])

lemma replaceAll_skip:
  assumes pf: "prevFree rx"
    and nm: "\<And>i. i < length pre \<Longrightarrow> rx None (drop i pre @ x) = None"
  shows "replaceAll rx f prev (pre @ x) = bindE (replaceAll rx f None x) (\<lambda>t. Inr (pre @ t))"
  using nm
proof (induction pre arbitrary: prev)
  case Nil
  show ?case using replaceAll_prev[OF pf, of f prev x]
    by (cases "replaceAll rx f None x") simp_all
next
  case (Cons c pre)
  have h: "rx prev (c # pre @ x) = None"
  proof -
    have "rx prev (c # pre @ x) = rx None (c # pre @ x)"
      using pf unfolding prevFree_def by blast
    with Cons.prems[of 0] show ?thesis by simp
  qed
  have "\<And>i. i < length pre \<Longrightarrow> rx None (drop i pre @ x) = None"
    using Cons.prems[of "Suc _"] by simp
  then have "replaceAll rx f (Some c) (pre @ x)
      = bindE (replaceAll rx f None x) (\<lambda>t. Inr (pre @ t))"
    by (rule Cons.IH)
  with h show ?case
    by (cases "replaceAll rx f None x") (simp_all add: replaceAll.simps[of rx f prev "c # pre @ x"])
qed

lemma replaceAll_block:
  assumes pf: "prevFree rx"
    and nm: "\<And>i. i < length pre \<Longrightarrow> rx None (drop i pre @ m @ rest) = None"
    and hit: "rx None (m @ rest) = Some (g, length m)" and ne: "m \<noteq> []"
  shows "replaceAll rx f prev (pre @ m @ rest) =
     bindE (f m g) (\<lambda>r. bindE (replaceAll rx f None rest) (\<lambda>t. Inr (pre @ r @ t)))"
proof -
  have "replaceAll rx f None (m @ rest) =
     bindE (f m g) (\<lambda>r. bindE (replaceAll rx f None rest) (\<lambda>t. Inr (r @ t)))"
    using replaceAll_hit[of rx None "m @ rest" g "length m" f] hit ne
    by (simp add: replaceAll_prev[OF pf, of f "Some _" rest])
  moreover have "replaceAll rx f prev (pre @ m @ rest)
      = bindE (replaceAll rx f None (m @ rest)) (\<lambda>t. Inr (pre @ t))"
    by (rule replaceAll_skip[OF pf]) (rule nm)
  ultimately show ?thesis
    by (cases "f m g"; cases "replaceAll rx f None rest") simp_all
qed

lemma not_key_brace [simp]: "\<not> isKeyChar CHR ''}''" "\<not> isKeyChar CHR ''{''"
  by (simp_all add: isKeyChar_def isWordChar_def)

lemma takeWhile_path: "list_all isKeyChar k \<Longrightarrow> \<not> isKeyChar c \<Longrightarrow>
  takeWhile isKeyChar (k @ c # r) = k \<and> dropWhile isKeyChar (k @ c # r) = c # r"
  by (induction k) auto

lemma rxVar_hit:
  "isPath k \<Longrightarrow> rxVar p (''{{'' @ k @ ''}}'' @ rest) = Some (k, length (''{{'' @ k @ ''}}''))"
  using takeWhile_path[of k "CHR ''}''" "CHR ''}'' # rest"]
  by (simp add: rxVar_def isPath_def)

lemma rxVar_miss:
  assumes "\<not> includesStr pre ''{{''" "i < length pre"
  shows "rxVar p (drop i pre @ ''{{'' @ k @ ''}}'' @ rest) = None"
proof -
  have n: "\<And>j. \<not> startsWith ''{{'' (drop j pre)"
    using assms(1) splitFirst_None_iff[of "''{{''" pre] by (simp add: includesStr_def)
  obtain c d where d: "drop i pre = c # d" using assms(2) by (cases "drop i pre") auto
  show ?thesis
  proof (cases d)
    case Nil
    show ?thesis
    proof (cases "c = CHR ''{''")
      case True
      with Nil d show ?thesis by (simp add: rxVar_def Let_def)
    next
      case False
      with Nil d show ?thesis by (simp add: rxVar_def Let_def)
    qed
  next
    case (Cons c2 d2)
    with n[of i] d have "\<not> startsWith ''{{'' (drop i pre @ ''{{'' @ k @ ''}}'' @ rest)"
      by simp
    then show ?thesis by (rule rxVar_plain)
  qed
qed

lemma startsWith_self: "startsWith m (m @ r)"
  by (induction m) auto

lemma key_overlap:
  "list_all isKeyChar k \<Longrightarrow> startsWith (k @ ''}}'') (b @ CHR ''{'' # after)
   \<Longrightarrow> startsWith (k @ ''}}'') b"
proof (induction k arbitrary: b)
  case Nil
  then show ?case
    by (cases b; cases "tl b") auto
next
  case (Cons a k)
  then show ?case by (cases b) auto
qed

lemma close_overlap:
  assumes "list_all isKeyChar k"
    and "startsWith (''{{/'' @ k @ ''}}'') (b @ ''{{/'' @ k @ ''}}'' @ rest)"
  shows "b = [] \<or> startsWith (''{{/'' @ k @ ''}}'') b"
proof (cases b)
  case Nil
  then show ?thesis by simp
next
  case b1: (Cons c1 t1)
  show ?thesis
  proof (cases t1)
    case Nil
    with b1 assms(2) show ?thesis by simp
  next
    case b2: (Cons c2 t2)
    show ?thesis
    proof (cases t2)
      case Nil
      with b1 b2 assms(2) show ?thesis by simp
    next
      case b3: (Cons c3 t3)
      from assms(2) b1 b2 b3 have c: "c1 = CHR ''{''" "c2 = CHR ''{''" "c3 = CHR ''/''"
        and "startsWith (k @ ''}}'') (t3 @ CHR ''{'' # (''{/'' @ k @ ''}}'' @ rest))"
        by auto
      then have "startsWith (k @ ''}}'') t3" using key_overlap[OF assms(1)] by blast
      with c b1 b2 b3 show ?thesis by auto
    qed
  qed
qed

lemma splitFirst_close:
  assumes k: "list_all isKeyChar k" and nb: "\<not> includesStr body (''{{/'' @ k @ ''}}'')"
  shows "splitFirst (''{{/'' @ k @ ''}}'') (body @ (''{{/'' @ k @ ''}}'') @ rest) = Some (body, rest)"
proof -
  define cl where "cl = ''{{/'' @ k @ ''}}''"
  have ne: "cl \<noteq> []" by (simp add: cl_def)
  have ov: "b = [] \<or> startsWith cl b" if "startsWith cl (b @ cl @ rest)" for b
    using close_overlap[OF k, of b rest] that by (simp add: cl_def)
  have "\<not> includesStr body cl \<Longrightarrow> splitFirst cl (body @ cl @ rest) = Some (body, rest)"
  proof (induction body)
    case Nil
    show ?case
    proof (cases cl)
      case Nil
      with ne show ?thesis by simp
    next
      case (Cons x xs)
      then show ?thesis using startsWith_self[of xs rest] by simp
    qed
  next
    case (Cons c body)
    from Cons.prems have n: "splitFirst cl (c # body) = None"
      unfolding includesStr_def by blast
    then have ns: "\<not> startsWith cl (c # body)"
      using splitFirst_None_iff[OF ne, of "c # body"] by (metis drop0)
    have "\<not> startsWith cl ((c # body) @ cl @ rest)"
      using ov[of "c # body"] ns by blast
    moreover have "\<not> includesStr body cl"
      using splitFirst_None_tl[OF n] unfolding includesStr_def by blast
    ultimately show ?case using Cons.IH by simp
  qed
  with nb show ?thesis by (simp add: cl_def)
qed

lemma rxLoop_hit:
  assumes "isPath k" and "\<not> includesStr body (''{{/'' @ k @ ''}}'')"
  shows "rxLoop p ((''{{#'' @ k @ ''}}'' @ body @ ''{{/'' @ k @ ''}}'') @ rest)
     = Some ((k, body), length (''{{#'' @ k @ ''}}'' @ body @ ''{{/'' @ k @ ''}}''))"
proof -
  have k: "list_all isKeyChar k" "k \<noteq> []" using assms(1) by (simp_all add: isPath_def)
  have t: "takeWhile isKeyChar (k @ CHR ''}'' # CHR ''}'' # body @ ''{{/'' @ k @ ''}}'' @ rest) = k"
      "dropWhile isKeyChar (k @ CHR ''}'' # CHR ''}'' # body @ ''{{/'' @ k @ ''}}'' @ rest)
        = CHR ''}'' # CHR ''}'' # body @ ''{{/'' @ k @ ''}}'' @ rest"
    using takeWhile_path[OF k(1), of "CHR ''}''"] by simp_all
  from splitFirst_close[OF k(1) assms(2), of rest] t k(2) show ?thesis
    by (simp add: rxLoop_def Let_def)
qed

lemma rxLoop_miss:
  assumes "\<not> includesStr pre ''{{#''" "i < length pre"
  shows "rxLoop p (drop i pre @ ''{{#'' @ after) = None"
proof -
  have n: "\<not> startsWith ''{{#'' (drop i pre)"
    using assms(1) splitFirst_None_iff[of "''{{#''" pre] by (simp add: includesStr_def)
  obtain c d where d: "drop i pre = c # d" using assms(2) by (cases "drop i pre") auto
  have "\<not> startsWith ''{{#'' (drop i pre @ ''{{#'' @ after)"
    using n d by (cases d; cases "tl d") auto
  then show ?thesis by (simp add: rxLoop_def)
qed

lemma rxLoop_prevFree: "prevFree rxLoop"
  by (simp add: prevFree_def rxLoop_def)

lemma jsSplit_0: "sep \<noteq> [] \<Longrightarrow> at (jsSplit s sep) 0 = Some (thenSection sep s)"
  by (subst jsSplit.simps) (simp add: at_def thenSection_def split: option.splits)

lemma jsSplit_1:
  "sep \<noteq> [] \<Longrightarrow> includesStr s sep \<Longrightarrow> at (jsSplit s sep) (Suc 0) = Some (elseSection sep s)"
proof -
  assume sep: "sep \<noteq> []" and inc: "includesStr s sep"
  then obtain a b where ab: "splitFirst sep s = Some (a, b)" by (auto simp: includesStr_def)
  have "jsSplit s sep = a # jsSplit b sep" using sep ab by (subst jsSplit.simps) simp
  moreover have "at (jsSplit b sep) 0 = Some (thenSection sep b)" using sep by (rule jsSplit_0)
  ultimately show ?thesis using ab by (auto simp: at_def elseSection_def split: if_splits)
qed

lemma lazyExpr_hit:
  assumes sp: "splitFirst cls (body @ cls @ rest) = Some (body, rest)"
  shows "e \<noteq> [] \<Longrightarrow> list_all (\<lambda>c. \<not> isLineTerminator c \<and> c \<noteq> CHR ''}'') e
     \<Longrightarrow> lazyExpr cls (e @ ''}}'' @ body @ cls @ rest) = Some (e, body, rest)"
proof (induction e)
  case Nil
  then show ?case by simp
next
  case (Cons c e)
  show ?case
  proof (cases e)
    case Nil
    with Cons.prems sp show ?thesis by simp
  next
    case (Cons c2 e2)
    with Cons.prems have "c2 \<noteq> CHR ''}''" by simp
    then have ns: "\<not> startsWith ''}}'' (c2 # x)" for x by auto
    have "lazyExpr cls ((c2 # e2) @ ''}}'' @ body @ cls @ rest) = Some (c2 # e2, body, rest)"
      using Cons.IH Cons.prems Cons by simp
    moreover have "\<not> isLineTerminator c" using Cons.prems by simp
    ultimately show ?thesis using Cons ns[of "e2 @ ''}}'' @ body @ cls @ rest"]
      by (simp del: startsWith.simps)
  qed
qed

lemma word_overlap:
  "CHR ''{'' \<notin> set w \<Longrightarrow> startsWith w (d @ CHR ''{'' # after) \<Longrightarrow> startsWith w d"
proof (induction w arbitrary: d)
  case Nil
  then show ?case by simp
next
  case (Cons a w)
  then show ?case by (cases d) auto
qed

lemma open_overlap:
  assumes "CHR ''{'' \<notin> set w" and "startsWith (''{{#'' @ w) (d @ ''{{#'' @ w @ after)"
  shows "d = [] \<or> startsWith (''{{#'' @ w) d"
proof (cases d)
  case Nil
  then show ?thesis by simp
next
  case d1: (Cons c1 t1)
  show ?thesis
  proof (cases t1)
    case Nil
    with d1 assms(2) show ?thesis by simp
  next
    case d2: (Cons c2 t2)
    show ?thesis
    proof (cases t2)
      case Nil
      with d1 d2 assms(2) show ?thesis by simp
    next
      case d3: (Cons c3 t3)
      from assms(2) d1 d2 d3 have c: "c1 = CHR ''{''" "c2 = CHR ''{''" "c3 = CHR ''#''"
        and "startsWith w (t3 @ CHR ''{'' # (''{#'' @ w @ after))"
        by auto
      then have "startsWith w t3" using word_overlap[OF assms(1)] by blast
      with c d1 d2 d3 show ?thesis by auto
    qed
  qed
qed

lemma rxCond_prevFree: "prevFree (rxCond opn cls)"
  by (simp add: prevFree_def rxCond_def)

lemma rxCond_miss:
  assumes w: "CHR ''{'' \<notin> set w" and np: "\<not> includesStr pre (''{{#'' @ w)" and i: "i < length pre"
  shows "rxCond (''{{#'' @ w) cls p (drop i pre @ (''{{#'' @ w) @ after) = None"
proof -
  have "splitFirst (''{{#'' @ w) pre = None" using np unfolding includesStr_def by blast
  moreover have "''{{#'' @ w \<noteq> []" by simp
  ultimately have "\<not> startsWith (''{{#'' @ w) (drop i pre)"
    using splitFirst_None_iff[of "''{{#'' @ w" pre] by blast
  moreover have "drop i pre \<noteq> []" using i by simp
  ultimately have ns: "\<not> startsWith (''{{#'' @ w) (drop i pre @ ''{{#'' @ w @ after)"
    using open_overlap[OF w, of "drop i pre" after] by blast
  show ?thesis unfolding rxCond_def using ns by (simp del: startsWith.simps)
qed

lemma rxCond_hit:
  assumes "e \<noteq> []" and "list_all (\<lambda>c. \<not> isLineTerminator c \<and> c \<noteq> CHR ''}'') e"
    and "list_all isKeyChar kw" and "\<not> includesStr body (''{{/'' @ kw @ ''}}'')"
  shows "rxCond opn (''{{/'' @ kw @ ''}}'') p ((opn @ e @ ''}}'' @ body @ ''{{/'' @ kw @ ''}}'') @ rest)
     = Some ((e, body), length (opn @ e @ ''}}'' @ body @ ''{{/'' @ kw @ ''}}''))"
proof -
  have "lazyExpr (''{{/'' @ kw @ ''}}'') (e @ ''}}'' @ body @ (''{{/'' @ kw @ ''}}'') @ rest)
      = Some (e, body, rest)"
    using lazyExpr_hit[OF splitFirst_close[OF assms(3,4)] assms(1,2)] by simp
  moreover have "startsWith opn (opn @ x)" for x by (rule startsWith_self)
  ultimately show ?thesis by (simp add: rxCond_def)
qed

lemma condBlock:
  assumes "e \<noteq> []" and "list_all (\<lambda>c. \<not> isLineTerminator c \<and> c \<noteq> CHR ''}'') e"
    and "list_all isKeyChar kw" and "\<not> includesStr body (''{{/'' @ kw @ ''}}'')"
    and "CHR ''{'' \<notin> set w" and "\<not> includesStr pre (''{{#'' @ w)"
  shows "replaceAll (rxCond (''{{#'' @ w) (''{{/'' @ kw @ ''}}'')) f None
           (pre @ ((''{{#'' @ w) @ e @ ''}}'' @ body @ ''{{/'' @ kw @ ''}}'') @ rest)
     = bindE (f ((''{{#'' @ w) @ e @ ''}}'' @ body @ ''{{/'' @ kw @ ''}}'') (e, body))
         (\<lambda>r. bindE (replaceAll (rxCond (''{{#'' @ w) (''{{/'' @ kw @ ''}}'')) f None rest)
            (\<lambda>t. Inr (pre @ r @ t)))"
proof (rule replaceAll_block[OF rxCond_prevFree _ rxCond_hit[OF assms(1-4)]])
  show "(''{{#'' @ w) @ e @ ''}}'' @ body @ ''{{/'' @ kw @ ''}}'' \<noteq> []" by simp
next
  fix i assume "i < length pre"
  from rxCond_miss[OF assms(5,6) this]
  show "rxCond (''{{#'' @ w) (''{{/'' @ kw @ ''}}'') None
          (drop i pre @ ((''{{#'' @ w) @ e @ ''}}'' @ body @ ''{{/'' @ kw @ ''}}'') @ rest) = None"
    by simp
qed


lemma finalConditionals_block:
  assumes "e \<noteq> []" and "list_all (\<lambda>c. \<not> isLineTerminator c \<and> c \<noteq> CHR ''}'') e"
    and "\<not> includesStr pre ''{{#if ''" and "\<not> includesStr body ''{{/if}}''"
    and "evaluateExpression ev (trim e) context = Inr v"
  shows "finalConditionals ev (pre @ (''{{#if '' @ e @ ''}}'' @ body @ ''{{/if}}'') @ rest) context
     = bindE (finalConditionals ev rest context)
         (\<lambda>t. Inr (pre @
            (if truthy v then trim (thenSection ''{{else}}'' body)
             else if includesStr body ''{{else}}'' then trim (elseSection ''{{else}}'' body)
             else []) @ t))"
proof -
  have k: "list_all isKeyChar ''if''" by (simp add: isKeyChar_def isWordChar_def)
  have w: "CHR ''{'' \<notin> set ''if ''" by simp
  have b: "\<not> includesStr body (''{{/'' @ ''if'' @ ''}}'')" using assms(4) by simp
  have p: "\<not> includesStr pre (''{{#'' @ ''if '')" using assms(3) by simp
  note blk = condBlock[OF assms(1,2) k b w p, simplified]
  show ?thesis
    unfolding finalConditionals_def
    by (simp add: blk assms(5) jsSplit_0 jsSplit_1 trimOf_def)
qed

lemma processSubConditionals_block:
  assumes "e \<noteq> []" and "list_all (\<lambda>c. \<not> isLineTerminator c \<and> c \<noteq> CHR ''}'') e"
    and "\<not> includesStr pre ''{{#subif ''" and "\<not> includesStr body ''{{/subif}}''"
    and "evaluateExpression ev (trim e) context = Inr v"
    and "processConditionals ev body context = Inr ip"
    and "truthy v \<or> \<not> includesStr body ''{{subelse}}'' \<or> includesStr ip ''{{subelse}}''"
  shows "processSubConditionals ev (pre @ (''{{#subif '' @ e @ ''}}'' @ body @ ''{{/subif}}'') @ rest) context
     = bindE (processSubConditionals ev rest context)
         (\<lambda>t. Inr (pre @
            (if truthy v then trim (thenSection ''{{subelse}}'' ip)
             else if includesStr body ''{{subelse}}'' then trim (elseSection ''{{subelse}}'' ip)
             else []) @ t))"
proof -
  have k: "list_all isKeyChar ''subif''" by (simp add: isKeyChar_def isWordChar_def)
  have w: "CHR ''{'' \<notin> set ''subif ''" by simp
  have b: "\<not> includesStr body (''{{/'' @ ''subif'' @ ''}}'')" using assms(4) by simp
  have p: "\<not> includesStr pre (''{{#'' @ ''subif '')" using assms(3) by simp
  note blk = condBlock[OF assms(1,2) k b w p, simplified]
  show ?thesis
    unfolding processSubConditionals_def
    using assms(7) by (auto simp: blk assms(5,6) jsSplit_0 jsSplit_1 trimOf_def)
qed


lemma substituteVars_block:
  assumes "isPath k" and "\<not> includesStr pre ''{{''"
  shows "substituteVars ev (pre @ (''{{'' @ k @ ''}}'') @ rest) context
     = bindE (if getValueFromPath ev context k \<noteq> Data JUndefined
              then toStrAny ev (getValueFromPath ev context k)
              else Inr (''{{'' @ k @ ''}}''))
         (\<lambda>r. bindE (substituteVars ev rest context) (\<lambda>t. Inr (pre @ r @ t)))"
proof -
  have pf: "prevFree rxVar" by (simp add: rxVar_def prevFree_def)
  have miss: "\<And>i. i < length pre \<Longrightarrow> rxVar None (drop i pre @ (''{{'' @ k @ ''}}'') @ rest) = None"
    using rxVar_miss[OF assms(2), of _ None k rest] by simp
  have hit: "rxVar None ((''{{'' @ k @ ''}}'') @ rest) = Some (k, length (''{{'' @ k @ ''}}''))"
    using rxVar_hit[OF assms(1), of None rest] by simp
  have ne: "''{{'' @ k @ ''}}'' \<noteq> []" by simp
  show ?thesis
    unfolding substituteVars_def by (simp only: replaceAll_block[OF pf miss hit ne] Let_def)
qed

lemma loops_block:
  assumes "isPath k" and "\<not> includesStr pre ''{{#''"
    and "\<not> includesStr body (''{{/'' @ k @ ''}}'')"
  shows "processNestedLoops ev (pre @ (''{{#'' @ k @ ''}}'' @ body @ ''{{/'' @ k @ ''}}'') @ rest) context
     = bindE (case getValueFromPath ev context k of
                Data (JArr array) \<Rightarrow> bindE (mapE (expandItem ev body) array) (\<lambda>outs. Inr (concat outs))
              | _ \<Rightarrow> Inr [])
         (\<lambda>r. bindE (processNestedLoops ev rest context) (\<lambda>t. Inr (pre @ r @ t)))"
proof -
  let ?m = "''{{#'' @ k @ ''}}'' @ body @ ''{{/'' @ k @ ''}}''"
  have miss: "\<And>i. i < length pre \<Longrightarrow> rxLoop None (drop i pre @ ?m @ rest) = None"
    using rxLoop_miss[OF assms(2)] by simp
  have "replaceAll rxLoop (loopBlock ev context) None (pre @ ?m @ rest)
      = bindE (loopBlock ev context ?m (k, body))
          (\<lambda>r. bindE (replaceAll rxLoop (loopBlock ev context) None rest) (\<lambda>t. Inr (pre @ r @ t)))"
  proof (rule replaceAll_block[OF rxLoop_prevFree miss rxLoop_hit[OF assms(1,3)]])
    show "?m \<noteq> []" by simp
  qed
  then show ?thesis by (simp add: processNestedLoops_replace loopBlock_def)
qed

lemma startsWith_set: "startsWith m x \<Longrightarrow> set m \<subseteq> set x"
  by (induction m x rule: startsWith.induct) auto

lemma no_char_no_start: "c \<in> set m \<Longrightarrow> c \<notin> set s \<Longrightarrow> \<not> startsWith m (drop i s)"
  using startsWith_set[of m "drop i s"] set_drop_subset[of i s] by blast

lemma no_char_not_included: "c \<in> set m \<Longrightarrow> c \<notin> set s \<Longrightarrow> \<not> includesStr s m"
proof -
  assume c: "c \<in> set m" "c \<notin> set s"
  then have "m \<noteq> []" by auto
  moreover have "\<forall>i. \<not> startsWith m (drop i s)" using no_char_no_start[OF c] by blast
  ultimately have "splitFirst m s = None" using splitFirst_None_iff[of m s] by blast
  then show ?thesis by (simp add: includesStr_def)
qed

lemma no_hash_loops: "CHR ''#'' \<notin> set s \<Longrightarrow> processNestedLoops ev s context = Inr s"
  unfolding processNestedLoops_replace
proof (rule replaceAll_id)
  fix p i assume "CHR ''#'' \<notin> set s"
  then have "\<not> startsWith ''{{#'' (drop i s)" by (intro no_char_no_start[of "CHR ''#''"]) simp_all
  then show "rxLoop p (drop i s) = None" by (simp add: rxLoop_def)
qed

lemma no_hash_cond:
  assumes "CHR ''#'' \<notin> set s" and "CHR ''#'' \<in> set opn"
  shows "replaceAll (rxCond opn cls) f prev s = Inr s"
proof (rule replaceAll_id)
  fix p i
  have "\<not> startsWith opn (drop i s)" using assms by (intro no_char_no_start[of "CHR ''#''"])
  then show "rxCond opn cls p (drop i s) = None" by (simp add: rxCond_def)
qed

lemma no_hash_if: "CHR ''#'' \<notin> set s \<Longrightarrow> processConditionals ev s context = Inr s"
  unfolding processConditionals_final finalConditionals_def by (rule no_hash_cond) simp_all

lemma no_hash_final: "CHR ''#'' \<notin> set s \<Longrightarrow> finalConditionals ev s context = Inr s"
  unfolding finalConditionals_def by (rule no_hash_cond) simp_all

lemma no_hash_subif: "CHR ''#'' \<notin> set s \<Longrightarrow> processSubConditionals ev s context = Inr s"
  unfolding processSubConditionals_def by (rule no_hash_cond) simp_all

lemma substituteVars_Nil: "substituteVars ev [] context = Inr []"
  by (simp add: substituteVars_def replaceAll.simps rxVar_def)

lemma not_key_hash: "\<not> isKeyChar CHR ''#''" "\<not> isKeyChar CHR ''/''"
  by (simp_all add: isKeyChar_def isWordChar_def)

lemma isPath_chars:
  "isPath p \<Longrightarrow> CHR ''#'' \<notin> set p \<and> CHR ''/'' \<notin> set p \<and> CHR ''{'' \<notin> set p"
  using not_key_hash not_key_brace by (auto simp: isPath_def list_all_iff)

text \<open>A closing marker cannot start in plain text, nor in a variable marker.\<close>

lemma brace_start_plain:
  assumes "CHR ''{'' \<notin> set a" and "startsWith (CHR ''{'' # m) (drop i (a @ y))"
  shows "length a \<le> i"
proof (rule ccontr)
  assume "\<not> length a \<le> i"
  then have i: "i < length a" by simp
  then obtain c d where d: "drop i a = c # d" by (cases "drop i a") auto
  then have "c \<in> set a" by (metis in_set_dropD list.set_intros(1))
  with assms(1) have "c \<noteq> CHR ''{''" by auto
  moreover have "drop i (a @ y) = c # d @ y" using i d by simp
  ultimately show False using assms(2) by auto
qed

lemma marker_no_close:
  assumes "isPath p" and "CHR ''{'' \<notin> set a" and "CHR ''{'' \<notin> set b"
  shows "\<not> includesStr (a @ (''{{'' @ p @ ''}}'') @ b) (''{{/'' @ k @ ''}}'')"
proof -
  obtain c p' where p: "p = c # p'" using assms(1) by (cases p) (auto simp: isPath_def)
  have kc: "isKeyChar c" using assms(1) p by (simp add: isPath_def)
  have tl: "CHR ''{'' \<notin> set (p @ ''}}'' @ b)" using isPath_chars[OF assms(1)] assms(3) by simp
  have "\<not> startsWith (''{{/'' @ k @ ''}}'') (drop i (a @ (''{{'' @ p @ ''}}'') @ b))" for i
  proof
    assume st: "startsWith (''{{/'' @ k @ ''}}'') (drop i (a @ (''{{'' @ p @ ''}}'') @ b))"
    then have "length a \<le> i" using brace_start_plain[OF assms(2), of "''{/'' @ k @ ''}}''" i] by simp
    then obtain j where j: "i = length a + j" using le_Suc_ex by blast
    have d: "drop i (a @ (''{{'' @ p @ ''}}'') @ b) = drop j (CHR ''{'' # CHR ''{'' # p @ ''}}'' @ b)"
      by (simp add: j)
    show False
    proof (cases j)
      case 0
      with st d p kc not_key_hash show ?thesis by auto
    next
      case (Suc j1)
      show ?thesis
      proof (cases j1)
        case 0
        with st d p kc Suc not_key_brace show ?thesis by auto
      next
        case (Suc j2)
        with st d \<open>j = Suc j1\<close> have "startsWith (''{{/'' @ k @ ''}}'') (drop j2 (p @ ''}}'' @ b))"
          by simp
        moreover have "CHR ''{'' \<in> set (''{{/'' @ k @ ''}}'')" by simp
        ultimately show ?thesis using no_char_no_start[OF _ tl] by blast
      qed
    qed
  qed
  then have "splitFirst (''{{/'' @ k @ ''}}'') (a @ (''{{'' @ p @ ''}}'') @ b) = None"
    using splitFirst_None_iff[of "''{{/'' @ k @ ''}}''"] by simp
  then show ?thesis by (simp add: includesStr_def)
qed

lemma substituteVars_plain: "CHR ''{'' \<notin> set s \<Longrightarrow> substituteVars ev s context = Inr s"
  unfolding substituteVars_def
proof (rule replaceAll_id)
  fix p i assume "CHR ''{'' \<notin> set s"
  then have "\<not> startsWith ''{{'' (drop i s)" by (intro no_char_no_start[of "CHR ''{''"]) simp_all
  then show "rxVar p (drop i s) = None" by (rule rxVar_plain)
qed

lemma substituteVars_skip:
  assumes "CHR ''{'' \<notin> set x"
  shows "substituteVars ev (x @ y) context = bindE (substituteVars ev y context) (\<lambda>t. Inr (x @ t))"
proof -
  have pf: "prevFree rxVar" by (simp add: rxVar_def prevFree_def)
  have miss: "rxVar None (drop i x @ y) = None" if lt: "i < length x" for i
  proof -
    obtain c d where d: "drop i x = c # d" using lt by (cases "drop i x") auto
    then have "c \<in> set x" by (metis in_set_dropD list.set_intros(1))
    with assms have "c \<noteq> CHR ''{''" by auto
    then have "\<not> startsWith ''{{'' (drop i x @ y)" using d by auto
    then show ?thesis by (rule rxVar_plain)
  qed
  show ?thesis unfolding substituteVars_def by (rule replaceAll_skip[OF pf miss])
qed

text \<open>The variable pass on plain text around one marker.\<close>

lemma substituteVars_chunk:
  assumes "isPath p" and "CHR ''{'' \<notin> set a" and "CHR ''{'' \<notin> set b"
  shows "substituteVars ev ((a @ (''{{'' @ p @ ''}}'') @ b) @ y) context
     = bindE (markerText ev context p)
         (\<lambda>r. bindE (substituteVars ev y context) (\<lambda>t. Inr ((a @ r @ b) @ t)))"
proof -
  have na: "\<not> includesStr a ''{{''" using assms(2) by (intro no_char_not_included[of "CHR ''{''"]) simp_all
  have "substituteVars ev (a @ (''{{'' @ p @ ''}}'') @ (b @ y)) context
     = bindE (markerText ev context p)
         (\<lambda>r. bindE (substituteVars ev (b @ y) context) (\<lambda>t. Inr (a @ r @ t)))"
    unfolding markerText_def by (rule substituteVars_block[OF assms(1) na])
  then show ?thesis
    by (cases "markerText ev context p"; cases "substituteVars ev y context")
       (simp_all add: substituteVars_skip[OF assms(3)])
qed

text \<open>One loop element, for a body of plain text around one marker.\<close>

lemma expandItem_chunk:
  assumes "isPath p" and "plainText a" and "plainText b"
    and "getValueFromPath ev item p = Data JUndefined \<or> plainValue ev item p"
  shows "expandItem ev (a @ (''{{'' @ p @ ''}}'') @ b) item
     = Inr (a @ textOf (markerText ev item p) @ b)"
proof -
  define body where "body = a @ (''{{'' @ p @ ''}}'') @ b"
  have a: "CHR ''{'' \<notin> set a" "CHR ''#'' \<notin> set a" and b: "CHR ''{'' \<notin> set b" "CHR ''#'' \<notin> set b"
    using assms(2,3) by (simp_all add: plainText_def)
  have h: "CHR ''#'' \<notin> set body" using a b isPath_chars[OF assms(1)] by (simp add: body_def)
  have "\<exists>t. markerText ev item p = Inr t \<and> CHR ''#'' \<notin> set t"
  proof (cases "getValueFromPath ev item p = Data JUndefined")
    case True
    then have "markerText ev item p = Inr (''{{'' @ p @ ''}}'')" by (simp add: markerText_def)
    moreover have "CHR ''#'' \<notin> set (''{{'' @ p @ ''}}'')" using isPath_chars[OF assms(1)] by simp
    ultimately show ?thesis by blast
  next
    case False
    with assms(4) have "plainValue ev item p" by blast
    then show ?thesis
      by (auto simp: plainValue_def plainText_def split: sum.splits)
  qed
  then obtain tx where tx: "markerText ev item p = Inr tx" and ht: "CHR ''#'' \<notin> set tx"
    by blast
  have "substituteVars ev (body @ []) item = Inr ((a @ tx @ b) @ [])"
    unfolding body_def substituteVars_chunk[OF assms(1) a(1) b(1)]
    by (simp add: tx substituteVars_Nil)
  then have s: "substituteVars ev body item = Inr (a @ tx @ b)" by simp
  have h2: "CHR ''#'' \<notin> set (a @ tx @ b)" using a b ht by simp
  have "expandItem ev body item = Inr (a @ tx @ b)"
    by (simp only: expandItem_def no_hash_if[OF h] no_hash_subif[OF h] bindE_Inr s
        no_hash_loops[OF h2])
  then show ?thesis by (simp add: body_def tx textOf_def)
qed

lemma expandItem_chunks:
  assumes "isPath p" and "plainText a" and "plainText b"
    and "\<forall>item\<in>set items. getValueFromPath ev item p = Data JUndefined \<or> plainValue ev item p"
  shows "mapE (expandItem ev (a @ (''{{'' @ p @ ''}}'') @ b)) items
     = Inr (map (\<lambda>item. a @ textOf (markerText ev item p) @ b) items)"
proof -
  define body where "body = a @ (''{{'' @ p @ ''}}'') @ b"
  define out where "out = (\<lambda>item. a @ textOf (markerText ev item p) @ b)"
  have e: "expandItem ev body item = Inr (out item)" if "item \<in> set items" for item
    unfolding body_def out_def using expandItem_chunk[OF assms(1-3)] assms(4) that by blast
  have "\<forall>item\<in>set xs. expandItem ev body item = Inr (out item)
      \<Longrightarrow> mapE (expandItem ev body) xs = Inr (map out xs)" for xs
    by (induction xs) simp_all
  from this[of items] e show ?thesis unfolding body_def out_def by blast
qed

text \<open>The variable pass that follows, on the output of the loop, with the root data.\<close>

lemma final_chunks:
  assumes "isPath p" and "plainText a" and "plainText b" and "plainText rest"
  shows "\<forall>item\<in>set items. getValueFromPath ev item p = Data JUndefined \<or> plainValue ev item p
     \<Longrightarrow> substituteVars ev (concat (map (\<lambda>item. a @ textOf (markerText ev item p) @ b) items) @ rest) root
       = bindE (mapE (\<lambda>item. if getValueFromPath ev item p = Data JUndefined
                               then bindE (markerText ev root p) (\<lambda>r. Inr (a @ r @ b))
                               else Inr (a @ textOf (markerText ev item p) @ b)) items)
           (\<lambda>outs. Inr (concat outs @ rest))"
proof (induction items)
  case Nil
  have "CHR ''{'' \<notin> set rest" using assms(4) by (simp add: plainText_def)
  then show ?case by (simp add: substituteVars_plain)
next
  case (Cons item items)
  define y where "y = concat (map (\<lambda>item. a @ textOf (markerText ev item p) @ b) items) @ rest"
  define fin where "fin = (\<lambda>item. if getValueFromPath ev item p = Data JUndefined
                               then bindE (markerText ev root p) (\<lambda>r. Inr (a @ r @ b))
                               else Inr (a @ textOf (markerText ev item p) @ b))"
  have a: "CHR ''{'' \<notin> set a" and b: "CHR ''{'' \<notin> set b"
    using assms(2,3) by (simp_all add: plainText_def)
  have ih: "substituteVars ev y root = bindE (mapE fin items) (\<lambda>outs. Inr (concat outs @ rest))"
    unfolding y_def fin_def using Cons by simp
  have "substituteVars ev ((a @ textOf (markerText ev item p) @ b) @ y) root
      = bindE (mapE fin (item # items)) (\<lambda>outs. Inr (concat outs @ rest))"
  proof (cases "getValueFromPath ev item p = Data JUndefined")
    case True
    then have t: "textOf (markerText ev item p) = ''{{'' @ p @ ''}}''"
      by (simp add: markerText_def textOf_def)
    have f: "fin item = bindE (markerText ev root p) (\<lambda>r. Inr (a @ r @ b))"
      using True by (simp add: fin_def)
    show ?thesis
      unfolding t substituteVars_chunk[OF assms(1) a b] ih
      by (cases "markerText ev root p"; cases "mapE fin items") (simp_all add: f)
  next
    case False
    with Cons.prems have "plainValue ev item p" by simp
    then have "CHR ''{'' \<notin> set (textOf (markerText ev item p))"
      by (auto simp: plainValue_def plainText_def textOf_def split: sum.splits)
    then have pl: "CHR ''{'' \<notin> set (a @ textOf (markerText ev item p) @ b)" using a b by simp
    have f: "fin item = Inr (a @ textOf (markerText ev item p) @ b)"
      using False by (simp add: fin_def)
    show ?thesis
      unfolding substituteVars_skip[OF pl] ih
      by (cases "mapE fin items") (simp_all add: f)
  qed
  then show ?case by (simp add: y_def fin_def)
qed

lemma getValueFromPath_undefined: "getValueFromPath ev JUndefined path = Data JUndefined"
proof -
  have "foldl (pathStep ev) (Data JUndefined) ks = Data JUndefined" for ks
    by (induction ks) (simp_all add: pathStep_def)
  then show ?thesis by (simp add: getValueFromPath_def)
qed

text \<open>A replacement whose callback returns every match as it stands changes nothing.\<close>

lemma replaceAll_same:
  assumes len: "\<And>p t g n. rx p t = Some (g, n) \<Longrightarrow> n \<le> length t"
  shows "\<forall>(m, g)\<in>set (matchesOf rx prev s). f m g = Inr m \<Longrightarrow> replaceAll rx f prev s = Inr s"
proof (induction "length s" arbitrary: s prev rule: less_induct)
  case less
  show ?case
  proof (cases "rx prev s")
    case None
    show ?thesis
    proof (cases s)
      case Nil
      with None show ?thesis by (simp add: replaceAll.simps)
    next
      case (Cons c cs)
      have "\<forall>(m, g)\<in>set (matchesOf rx (Some c) cs). f m g = Inr m"
        using less.prems None Cons by (simp add: matchesOf.simps[of rx prev])
      then have "replaceAll rx f (Some c) cs = Inr cs" using less.hyps[of cs "Some c"] Cons by simp
      with None Cons show ?thesis by (simp add: replaceAll.simps[of rx f prev])
    qed
  next
    case (Some a)
    obtain g n where a: "a = (g, n)" by (cases a)
    have n: "n \<le> length s" using len Some a by blast
    have r: "f (take n s) g = Inr (take n s)"
      using less.prems Some a by (simp add: matchesOf.simps[of rx prev])
    show ?thesis
    proof (cases "0 < n")
      case True
      then have sh: "length (drop n s) < length s" using n by auto
      have "\<forall>(m, g)\<in>set (matchesOf rx (Some (s ! (n - 1))) (drop n s)). f m g = Inr m"
        using less.prems Some a True n by (simp add: matchesOf.simps[of rx prev])
      then have "replaceAll rx f (Some (s ! (n - 1))) (drop n s) = Inr (drop n s)"
        using less.hyps[OF sh] by simp
      with Some a r True n show ?thesis by (simp add: replaceAll.simps[of rx f prev])
    next
      case False
      then have n0: "n = 0" by simp
      show ?thesis
      proof (cases s)
        case Nil
        with Some a r n0 show ?thesis by (simp add: replaceAll.simps[of rx f prev])
      next
        case (Cons c cs)
        have "\<forall>(m, g)\<in>set (matchesOf rx (Some c) cs). f m g = Inr m"
          using less.prems Some a Cons n0 by (simp add: matchesOf.simps[of rx prev])
        then have "replaceAll rx f (Some c) cs = Inr cs" using less.hyps[of cs "Some c"] Cons by simp
        with Some a r n0 Cons show ?thesis by (simp add: replaceAll.simps[of rx f prev])
      qed
    qed
  qed
qed

lemma tokenEnd_le: "tokenEnd s = Some k \<Longrightarrow> k \<le> length s"
  by (induction s arbitrary: k) (auto split: if_splits option.splits)

lemma rxToken_le: "rxToken p t = Some (g, n) \<Longrightarrow> n \<le> length t"
  by (auto simp: rxToken_def tokenEnd_le split: if_splits option.splits)

text \<open>An expression none of whose tokens the data resolves reaches the engine as it stands.\<close>

lemma sanitize_unresolved:
  assumes "\<forall>m\<in>set (tokens expr). getValueFromPath ev context m = Data JUndefined"
  shows "sanitize ev expr context = Inr expr"
  unfolding sanitize_def
proof (rule replaceAll_same)
  show "\<And>p t g n. rxToken p t = Some (g, n) \<Longrightarrow> n \<le> length t" by (rule rxToken_le)
  show "\<forall>(m, g)\<in>set (matchesOf rxToken None expr).
          (let val = getValueFromPath ev context m in
           if val \<noteq> Data JUndefined
           then (case val of Data (JStr s) \<Rightarrow> Inr (jsonStringify s) | v \<Rightarrow> toStrAny ev v)
           else Inr m) = Inr m"
    using assms by (auto simp: tokens_def)
qed

text \<open>
  The variable pass of a loop element runs before the nested loops of its body are
  expanded, so it also replaces the markers inside an inner loop body: in the nested
  loop example of the README the inner \<open>{{name}}\<close> shows the category, not the item.
\<close>

lemma nested_loop_outer_element:
  "renderTemplate literalEngine
     (Some [(''catalog'',
        ''{{#categories}}<h2>{{name}}</h2>{{#items}}<li>{{name}}</li>{{/items}}{{/categories}}'')])
     ''catalog''
     (JObj [(''categories'', JArr [JObj [(''name'', JStr ''Books''),
        (''items'', JArr [JObj [(''name'', JStr ''Fiction'')]])]])])
   = Inr ''<h2>Books</h2><li>Books</li>''"
  by code_simp

section \<open>Claims\<close>

text \<open>
  C9. A template identifier that the store does not hold, or any identifier while no
  templates have been imported, renders as the empty string, whatever the data.
\<close>

theorem renderTemplate_unresolved:
  "(case templateDoc of None \<Rightarrow> True | Some doc \<Rightarrow> map_of doc ident = None)
   \<Longrightarrow> renderTemplate ev templateDoc ident data = Inr []"
  by (auto simp: renderTemplate_def getTemplate_def Let_def split: option.splits)

theorem renderTemplate_unresolved_witness:
  "renderTemplate literalEngine None ''card'' (JObj [(''name'', JStr ''Ann'')]) = Inr []
   \<and> renderTemplate literalEngine (Some [(''card'', ''Hi'')]) ''menu'' (JObj []) = Inr []"
  using renderTemplate_unresolved[where templateDoc = None and ident = "''card''"]
        renderTemplate_unresolved[where templateDoc = "Some [(''card'', ''Hi'')]"
          and ident = "''menu''"]
  by simp

text \<open>
  C4. Rendering is not total: the sub-conditional pass tests the matched body for
  \<open>{{subelse}}\<close> but splits the body after its conditionals were expanded. Here the
  inner \<open>if\<close> removes the marker, element 1 of the split is \<open>undefined\<close>, and its
  \<open>trim\<close> throws a TypeError that leaves \<open>renderTemplate\<close>.
\<close>

theorem renderTemplate_throws:
  "renderTemplate literalEngine
     (Some [(''t'', ''{{#subif n}}{{#if y}}{{#if n}}{{/if}}{{subelse}}{{/if}}{{/subif}}'')])
     ''t'' (JObj [(''y'', JBool True), (''n'', JBool False)]) = Inl TypeError"
  by code_simp

text \<open>
  C7. The tag-escape pass is a single scan and is not idempotent: a text it has produced
  can hold an escaped name again, which a second pass removes.
\<close>

theorem stripNedara_not_idempotent:
  "stripNedara ''nedara-nedara-x'' = Inr ''nedara-x''
   \<and> stripNedara ''nedara-x'' \<noteq> Inr ''nedara-x''"
  by code_simp

text \<open>
  C7, amended. A second pass returns the output of the first unchanged exactly when that
  output holds no \<open>nedara-\<close> followed by a word character.
\<close>

theorem stripNedara_fixed:
  "stripNedara s = Inr t \<Longrightarrow> (stripNedara t = Inr t) = (\<not> hasNedara t)"
  using stripNedara_id[of t] stripNedara_changes[of t] by blast

theorem stripNedara_fixed_witness:
  "stripNedara ''<nedara-td>'' = Inr ''<td>'' \<and> \<not> hasNedara ''<td>''
   \<and> stripNedara ''<td>'' = Inr ''<td>''"
proof -
  have a: "stripNedara ''<nedara-td>'' = Inr ''<td>''" by code_simp
  have b: "\<not> hasNedara ''<td>''" by code_simp
  from stripNedara_fixed[OF a] a b show ?thesis by simp
qed

text \<open>
  C8. A template without \<open>{{\<close> markers is not always returned unchanged: the stored
  markup is trimmed, and the tag-escape pass still removes the \<open>nedara-\<close> prefix.
\<close>

theorem plain_template_changed:
  "\<not> includesStr ''<nedara-b> ok '' ''{{''
   \<and> renderTemplate literalEngine (Some [(''t'', ''<nedara-b> ok '')]) ''t'' (JObj []) = Inr ''<b> ok''
   \<and> renderTemplate literalEngine (Some [(''t'', ''<nedara-b> ok '')]) ''t'' (JObj [])
       \<noteq> Inr ''<nedara-b> ok ''"
  by code_simp

text \<open>
  C8, amended. Rendering a template whose markup holds no \<open>{{\<close> returns the trimmed
  markup after the tag-escape pass, for every data; when the trimmed markup holds no
  escaped tag name either, that is the trimmed markup itself.
\<close>

theorem renderTemplate_plain:
  assumes "map_of doc ident = Some src" and "\<not> includesStr src ''{{''"
  shows "renderTemplate ev (Some doc) ident data = stripNedara (trim src)
         \<and> (\<not> hasNedara (trim src) \<longrightarrow> renderTemplate ev (Some doc) ident data = Inr (trim src))"
proof -
  have "\<not> startsWith ''{{'' (drop i (trim src))" for i
    using includes_trim[OF _ assms(2), of 0] splitFirst_None_iff[of "''{{''" "trim src"] by simp
  then have "renderContent ev (trim src) d = stripNedara (trim src)" for d
    by (rule renderContent_plain)
  then have "renderTemplate ev (Some doc) ident data = stripNedara (trim src)"
    using assms(1) by (simp add: renderTemplate_def getTemplate_def Let_def stripNedara_Nil)
  then show ?thesis by (simp add: stripNedara_id)
qed

theorem renderTemplate_plain_witness:
  "map_of [(''t'', '' <p>Hi</p> '')] ''t'' = Some '' <p>Hi</p> ''
   \<and> \<not> includesStr '' <p>Hi</p> '' ''{{''
   \<and> \<not> hasNedara (trim '' <p>Hi</p> '')
   \<and> renderTemplate literalEngine (Some [(''t'', '' <p>Hi</p> '')]) ''t''
        (JObj [(''x'', JNum (Finite 1 0))])
       = Inr ''<p>Hi</p>''"
proof -
  have a: "map_of [(''t'', '' <p>Hi</p> '')] ''t'' = Some '' <p>Hi</p> ''" by simp
  have b: "\<not> includesStr '' <p>Hi</p> '' ''{{''" by code_simp
  have c: "\<not> hasNedara (trim '' <p>Hi</p> '')" by code_simp
  have d: "trim '' <p>Hi</p> '' = ''<p>Hi</p>''" by code_simp
  have e: "renderTemplate literalEngine (Some [(''t'', '' <p>Hi</p> '')]) ''t''
        (JObj [(''x'', JNum (Finite 1 0))])
       = Inr (trim '' <p>Hi</p> '')"
    using renderTemplate_plain[OF a b, of literalEngine "JObj [(''x'', JNum (Finite 1 0))]"] c
    by blast
  from a b c e[unfolded d] show ?thesis by blast
qed

text \<open>
  C10. The renderer works on the trimmed markup of the stored template: white space
  around the stored markup never reaches the output, the rendering is the same with
  and without it.
\<close>

theorem renderTemplate_trims:
  assumes "\<forall>c\<in>set ws1. isSpace c" and "\<forall>c\<in>set ws2. isSpace c"
  shows "renderTemplate ev (Some ((ident, ws1 @ src @ ws2) # doc)) ident data
       = renderTemplate ev (Some ((ident, src) # doc)) ident data"
  using trim_pad[OF assms] by (simp add: renderTemplate_def getTemplate_def)

theorem renderTemplate_trims_witness:
  "isSpace CHR 0x20 \<and> isSpace CHR 0x0A \<and> isSpace CHR 0x09
   \<and> renderTemplate literalEngine
        (Some [(''t'', [CHR 0x20, CHR 0x0A] @ ''Hi {{name}}'' @ [CHR 0x09])]) ''t''
        (JObj [(''name'', JStr ''Ann'')])
     = renderTemplate literalEngine (Some [(''t'', ''Hi {{name}}'')]) ''t''
        (JObj [(''name'', JStr ''Ann'')])
   \<and> renderTemplate literalEngine (Some [(''t'', ''Hi {{name}}'')]) ''t''
        (JObj [(''name'', JStr ''Ann'')]) = Inr ''Hi Ann''"
proof -
  have a: "\<forall>c\<in>set [CHR 0x20, CHR 0x0A]. isSpace c" by (simp add: isSpace_def)
  have b: "\<forall>c\<in>set [CHR 0x09]. isSpace c" by (simp add: isSpace_def)
  have c: "renderTemplate literalEngine (Some [(''t'', ''Hi {{name}}'')]) ''t''
        (JObj [(''name'', JStr ''Ann'')]) = Inr ''Hi Ann''" by code_simp
  from renderTemplate_trims[OF a b, of literalEngine "''t''" "''Hi {{name}}''" "[]"
         "JObj [(''name'', JStr ''Ann'')]"] a b c
  show ?thesis by simp
qed






text \<open>
  C2. A conditional block does not end at the correctly nested closing marker: it ends
  at the first \<open>{{/if}}\<close> after its opening marker. Here the outer block ends where
  the inner one was meant to end, the condition \<open>n\<close> is false and the body up to
  there holds no \<open>{{else}}\<close>, so the block leaves nothing and the rest of the text,
  with the outer \<open>{{else}}\<close> and \<open>{{/if}}\<close>, is copied. Matching by nesting would give
  \<open>E\<close>.
\<close>

theorem nested_if_first_close:
  "processConditionals literalEngine ''{{#if n}}{{#if y}}X{{/if}}Y{{else}}E{{/if}}''
     (JObj [(''y'', JBool True), (''n'', JBool False)]) = Inr ''Y{{else}}E{{/if}}''
   \<and> renderTemplate literalEngine
       (Some [(''t'', ''{{#if n}}{{#if y}}X{{/if}}Y{{else}}E{{/if}}'')]) ''t''
       (JObj [(''y'', JBool True), (''n'', JBool False)]) \<noteq> Inr ''E''"
  by code_simp

text \<open>
  C2, amended. An \<open>if\<close> block runs from \<open>{{#if expr}}\<close> to the first \<open>{{/if}}\<close> after
  it (the expression holds no closing brace and no line break, the text before the block
  opens no \<open>if\<close>). Its body holds no complete \<open>if\<close> block, and expanding the body
  changes nothing. The block is replaced by the trimmed body up to the first
  \<open>{{else}}\<close> (all of it when there is none) when the expression is truthy, by the
  trimmed text between the first \<open>{{else}}\<close> and the next one (or the end) when it is
  falsy and the body holds \<open>{{else}}\<close>, and by nothing otherwise. A \<open>subif\<close> block
  is treated alike with \<open>{{/subif}}\<close> and \<open>{{subelse}}\<close>, except that its body first has
  its \<open>if\<close> blocks expanded; this is stated for the case that the expansion keeps a
  \<open>{{subelse}}\<close> that decides the outcome.
\<close>

theorem conditional_blocks:
  assumes "e \<noteq> []" and "list_all (\<lambda>c. \<not> isLineTerminator c \<and> c \<noteq> CHR ''}'') e"
    and "evaluateExpression ev (trim e) context = Inr v"
    and "\<not> includesStr pre ''{{#if ''" and "\<not> includesStr body ''{{/if}}''"
    and "\<not> includesStr spre ''{{#subif ''" and "\<not> includesStr sbody ''{{/subif}}''"
    and "processConditionals ev sbody context = Inr ip"
    and "truthy v \<or> \<not> includesStr sbody ''{{subelse}}'' \<or> includesStr ip ''{{subelse}}''"
  shows "processConditionals ev (pre @ (''{{#if '' @ e @ ''}}'' @ body @ ''{{/if}}'') @ rest) context
       = bindE (processConditionals ev rest context)
           (\<lambda>t. Inr (pre @
              (if truthy v then trim (thenSection ''{{else}}'' body)
               else if includesStr body ''{{else}}'' then trim (elseSection ''{{else}}'' body)
               else []) @ t))
     \<and> processConditionals ev body context = Inr body
     \<and> processSubConditionals ev
         (spre @ (''{{#subif '' @ e @ ''}}'' @ sbody @ ''{{/subif}}'') @ rest) context
       = bindE (processSubConditionals ev rest context)
           (\<lambda>t. Inr (spre @
              (if truthy v then trim (thenSection ''{{subelse}}'' ip)
               else if includesStr sbody ''{{subelse}}'' then trim (elseSection ''{{subelse}}'' ip)
               else []) @ t))"
proof -
  have "splitFirst ''{{/if}}'' body = None" using assms(5) unfolding includesStr_def by blast
  then have "processConditionals ev body context = Inr body"
    by (rule processConditionals_noclose)
  then show ?thesis
    using finalConditionals_block[OF assms(1,2,4,5,3)]
      processSubConditionals_block[OF assms(1,2,6,7,3,8,9)]
    by (simp only: processConditionals_final)
qed

theorem conditional_blocks_witness:
  "''ok'' \<noteq> [] \<and> list_all (\<lambda>c. \<not> isLineTerminator c \<and> c \<noteq> CHR ''}'') ''ok''
   \<and> evaluateExpression literalEngine (trim ''ok'') (JObj [(''ok'', JBool False)]) = Inr (JBool False)
   \<and> \<not> includesStr ''<p>'' ''{{#if '' \<and> \<not> includesStr '' yes {{else}} no '' ''{{/if}}''
   \<and> \<not> includesStr ''<p>'' ''{{#subif '' \<and> \<not> includesStr '' yes {{subelse}} no '' ''{{/subif}}''
   \<and> processConditionals literalEngine '' yes {{subelse}} no '' (JObj [(''ok'', JBool False)])
       = Inr '' yes {{subelse}} no ''
   \<and> includesStr '' yes {{subelse}} no '' ''{{subelse}}''
   \<and> processConditionals literalEngine
        (''<p>'' @ (''{{#if '' @ ''ok'' @ ''}}'' @ '' yes {{else}} no '' @ ''{{/if}}'') @ ''</p>'')
        (JObj [(''ok'', JBool False)]) = Inr ''<p>no</p>''
   \<and> processSubConditionals literalEngine
        (''<p>'' @ (''{{#subif '' @ ''ok'' @ ''}}'' @ '' yes {{subelse}} no '' @ ''{{/subif}}'') @ ''</p>'')
        (JObj [(''ok'', JBool False)]) = Inr ''<p>no</p>''"
proof -
  let ?ctx = "JObj [(''ok'', JBool False)]"
  have 1: "''ok'' \<noteq> []" by simp
  have 2: "list_all (\<lambda>c. \<not> isLineTerminator c \<and> c \<noteq> CHR ''}'') ''ok''" by code_simp
  have 3: "evaluateExpression literalEngine (trim ''ok'') ?ctx = Inr (JBool False)" by code_simp
  have 4: "\<not> includesStr ''<p>'' ''{{#if ''" by code_simp
  have 5: "\<not> includesStr '' yes {{else}} no '' ''{{/if}}''" by code_simp
  have 6: "\<not> includesStr ''<p>'' ''{{#subif ''" by code_simp
  have 7: "\<not> includesStr '' yes {{subelse}} no '' ''{{/subif}}''" by code_simp
  have 8: "processConditionals literalEngine '' yes {{subelse}} no '' ?ctx = Inr '' yes {{subelse}} no ''"
    by code_simp
  have 9: "includesStr '' yes {{subelse}} no '' ''{{subelse}}''" by code_simp
  then have h9: "truthy (JBool False) \<or> \<not> includesStr '' yes {{subelse}} no '' ''{{subelse}}''
      \<or> includesStr '' yes {{subelse}} no '' ''{{subelse}}''" by blast
  note t = conditional_blocks[OF 1 2 3 4 5 6 7 8 h9, of "''</p>''"]
  have a: "bindE (processConditionals literalEngine ''</p>'' ?ctx)
           (\<lambda>t. Inr (''<p>'' @
              (if truthy (JBool False) then trim (thenSection ''{{else}}'' '' yes {{else}} no '')
               else if includesStr '' yes {{else}} no '' ''{{else}}''
                    then trim (elseSection ''{{else}}'' '' yes {{else}} no '')
               else []) @ t)) = Inr ''<p>no</p>''"
    by code_simp
  have b: "bindE (processSubConditionals literalEngine ''</p>'' ?ctx)
           (\<lambda>t. Inr (''<p>'' @
              (if truthy (JBool False) then trim (thenSection ''{{subelse}}'' '' yes {{subelse}} no '')
               else if includesStr '' yes {{subelse}} no '' ''{{subelse}}''
                    then trim (elseSection ''{{subelse}}'' '' yes {{subelse}} no '')
               else []) @ t)) = Inr ''<p>no</p>''"
    by code_simp
  have c: "processConditionals literalEngine
        (''<p>'' @ (''{{#if '' @ ''ok'' @ ''}}'' @ '' yes {{else}} no '' @ ''{{/if}}'') @ ''</p>'')
        ?ctx = Inr ''<p>no</p>''"
    using t[THEN conjunct1] a by (rule trans)
  have d: "processSubConditionals literalEngine
        (''<p>'' @ (''{{#subif '' @ ''ok'' @ ''}}'' @ '' yes {{subelse}} no '' @ ''{{/subif}}'') @ ''</p>'')
        ?ctx = Inr ''<p>no</p>''"
    using t[THEN conjunct2, THEN conjunct2] b by (rule trans)
  from 1 2 3 4 5 6 7 8 9 c d show ?thesis by blast
qed







end
